theory Spec2Isabelle
  imports
    Complex_Main
    "HOL-Library.Sublist"
    "HOL-Library.Char_ord"
    "HOL-Library.List_Lexorder"
    "HOL-Library.Product_Lexorder"
begin

section \<open>JavaScript strings and values\<close>

text \<open>
  Strings are lists of characters. A \<^typ>\<open>char\<close> stands for a code point of the
  Latin-1 range (U+0000 to U+00FF); on that range \<open>String.prototype.toLowerCase\<close> maps
  A-Z and the accented capitals U+00C0 to U+00DE (without the multiplication sign U+00D7)
  to the code point 32 higher, which is the same character with bit 5 set, and
  \<open>String.prototype.trim\<close> strips TAB, LF, VT, FF, CR, SPACE and NBSP.
\<close>

definition toLowerChar :: "char \<Rightarrow> char" where
  "toLowerChar c =
     (let n = (of_char c :: nat)
      in if (65 \<le> n \<and> n \<le> 90) \<or> (192 \<le> n \<and> n \<le> 222 \<and> n \<noteq> 215)
         then Char (digit0 c) (digit1 c) (digit2 c) (digit3 c) (digit4 c) True (digit6 c) (digit7 c)
         else c)"

definition toLowerCase :: "string \<Rightarrow> string" where
  "toLowerCase s = map toLowerChar s"

definition isWhiteSpace :: "char \<Rightarrow> bool" where
  "isWhiteSpace c = (of_char c \<in> {9, 10, 11, 12, 13, 32, 160 :: nat})"

definition trim :: "string \<Rightarrow> string" where
  "trim s = rev (dropWhile isWhiteSpace (rev (dropWhile isWhiteSpace s)))"

fun startsWith :: "string \<Rightarrow> string \<Rightarrow> bool" where
  "startsWith s [] = True"
| "startsWith [] (c # t) = False"
| "startsWith (d # s) (c # t) = (d = c \<and> startsWith s t)"

text \<open>\<open>s.includes(t)\<close>: \<open>t\<close> occurs in \<open>s\<close> as a contiguous substring.\<close>

fun includesStr :: "string \<Rightarrow> string \<Rightarrow> bool" where
  "includesStr [] t = (t = [])"
| "includesStr (c # s) t = (startsWith (c # s) t \<or> includesStr s t)"

text \<open>
  An optional field is \<open>None\<close> when it is \<open>undefined\<close> or \<open>null\<close>.
  \<open>x || d\<close> also replaces the empty string, \<open>x ?? d\<close> does not.
\<close>

definition orElse :: "string option \<Rightarrow> string \<Rightarrow> string" where
  "orElse x d = (case x of None \<Rightarrow> d | Some s \<Rightarrow> if s = [] then d else s)"

definition nullish :: "string option \<Rightarrow> string \<Rightarrow> string" where
  "nullish x d = (case x of None \<Rightarrow> d | Some s \<Rightarrow> s)"

text \<open>
  \<open>new Set(xs)\<close> keeps the first occurrence of every value, in insertion order;
  \<open>Array.from\<close> reads it back in that order and \<open>.size\<close> is its length.
\<close>

definition setAdd :: "'a list \<Rightarrow> 'a \<Rightarrow> 'a list" where
  "setAdd acc x = (if x \<in> set acc then acc else acc @ [x])"

definition newSet :: "'a list \<Rightarrow> 'a list" where
  "newSet xs = foldl setAdd [] xs"

text \<open>\<open>xs.slice(a, b)\<close> for indices \<open>0 \<le> a\<close>, \<open>0 \<le> b\<close>: empty when \<open>b \<le> a\<close>.\<close>

definition slice :: "'a list \<Rightarrow> nat \<Rightarrow> nat \<Rightarrow> 'a list" where
  "slice xs a b = take (b - a) (drop a xs)"

section \<open>Data model\<close>

text \<open>
  The types \<open>VisitorLogDTO\<close>, \<open>Station\<close> and \<open>AssignedUser\<close> are declared in
  \<open>api/Index\<close>, which is not among the sources. The records have the fields that the
  components read; a field is optional where the code guards against its absence.
\<close>

record VisitorLogDTO =
  visitorLogID :: int
  fullName :: "string option"
  idType :: "string option"
  passNo :: "string option"
  location :: "string option"
  purposeOfVisit :: "string option"
  loggedBy :: "string option"
  date :: "string option"
  time :: "string option"

record Station =
  station_id :: int
  name :: "string option"
  stationType :: "string option"
  active :: "bool option"

record AssignedUser =
  user_id :: int
  username :: string
  accountType :: string

datatype statusFilter = StatusAll | StatusActive | StatusInactive

datatype stationKind = Gate | Building

definition kindString :: "stationKind \<Rightarrow> string" where
  "kindString k = (case k of Gate \<Rightarrow> ''gate'' | Building \<Rightarrow> ''building'')"

datatype icon = faDungeon | farBuilding

section \<open>LogBook: filtering\<close>

definition isActive :: "int list \<Rightarrow> int \<Rightarrow> bool" where
  "isActive activeLogIds logId = (logId \<in> set activeLogIds)"

definition searchFields :: "VisitorLogDTO \<Rightarrow> string list" where
  "searchFields e =
     [nullish (fullName e) [], nullish (idType e) [], nullish (passNo e) [],
      nullish (location e) [], nullish (purposeOfVisit e) [], nullish (loggedBy e) [],
      nullish (date e) [], nullish (time e) []]"

text \<open>The callback of \<open>data.filter\<close> in \<open>filteredLogs\<close>, with its early returns in order.\<close>

definition keepLog :: "int list \<Rightarrow> string \<Rightarrow> statusFilter \<Rightarrow> string \<Rightarrow> VisitorLogDTO \<Rightarrow> bool" where
  "keepLog activeLogIds search sf locationFilter e =
     (let term = toLowerCase search;
          logIsActive = isActive activeLogIds (visitorLogID e);
          loc = toLowerCase (trim (orElse (location e) []))
      in if sf = StatusActive \<and> \<not> logIsActive then False
         else if sf = StatusInactive \<and> logIsActive then False
         else if locationFilter \<noteq> ''all'' \<and> (loc = [] \<or> loc \<noteq> toLowerCase (trim locationFilter))
           then False
         else if term = [] then True
         else list_ex (\<lambda>field. includesStr (toLowerCase field) term) (searchFields e))"

definition filteredLogs ::
  "VisitorLogDTO list \<Rightarrow> int list \<Rightarrow> string \<Rightarrow> statusFilter \<Rightarrow> string \<Rightarrow> VisitorLogDTO list" where
  "filteredLogs data activeLogIds search sf locationFilter =
     filter (keepLog activeLogIds search sf locationFilter) data"

section \<open>LogBook: pagination\<close>

text \<open>
  \<open>page\<close> is the 0-based page index held by the component (\<open>useState(0)\<close>, "0-based")
  and \<open>pageSize\<close> the number of rows per page, both natural numbers. On natural numbers
  with \<open>pageSize > 0\<close>, \<open>Math.ceil(n / pageSize)\<close> is \<open>(n + pageSize - 1) div pageSize\<close>;
  for \<open>pageSize = 0\<close> and \<open>n > 0\<close> the quotient is \<open>Infinity\<close>, which is \<open>None\<close> here,
  and \<open>Math.min(page, Infinity - 1)\<close> is \<open>page\<close>.
\<close>

definition totalElements :: "'a list \<Rightarrow> nat" where
  "totalElements filtered = length filtered"

definition totalPages :: "'a list \<Rightarrow> nat \<Rightarrow> nat option" where
  "totalPages filtered pageSize =
     (if totalElements filtered = 0 then Some 0
      else if pageSize = 0 then None
      else Some ((totalElements filtered + pageSize - 1) div pageSize))"

definition currentPage :: "'a list \<Rightarrow> nat \<Rightarrow> nat \<Rightarrow> nat" where
  "currentPage filtered page pageSize =
     (case totalPages filtered pageSize of
        None \<Rightarrow> page
      | Some tp \<Rightarrow> if tp = 0 then 0 else min page (tp - 1))"

definition pagedLogs :: "'a list \<Rightarrow> nat \<Rightarrow> nat \<Rightarrow> 'a list" where
  "pagedLogs filtered page pageSize =
     slice filtered (currentPage filtered page pageSize * pageSize)
       (currentPage filtered page pageSize * pageSize + pageSize)"

section \<open>LogBook: statistics\<close>

text \<open>
  \<open>locationCount\<close> and \<open>gateCount\<close> are plain objects used as counters. An object is
  modelled by its own properties in creation order. A property value is a count, or the
  string that \<open>+ 1\<close> makes of a value inherited from \<open>Object.prototype\<close>.
\<close>

datatype jsval = Num nat | NonNum

type_synonym counts = "(string \<times> jsval) list"

definition objectPrototypeKeys :: "string list" where
  "objectPrototypeKeys =
     [''__proto__'', ''constructor'', ''hasOwnProperty'', ''isPrototypeOf'',
      ''propertyIsEnumerable'', ''toLocaleString'', ''toString'', ''valueOf'',
      ''__defineGetter__'', ''__defineSetter__'', ''__lookupGetter__'', ''__lookupSetter__'']"

fun setProp :: "counts \<Rightarrow> string \<Rightarrow> jsval \<Rightarrow> counts" where
  "setProp [] k v = [(k, v)]"
| "setProp (p # ps) k v = (if fst p = k then (k, v) # ps else p # setProp ps k v)"

text \<open>
  The statement \<open>rec[k] = (rec[k] || 0) + 1\<close>. A key that the object does not own is
  read from the prototype: the inherited function is truthy, \<open>+ 1\<close> turns it into a
  string, and the assignment stores that string as an own property (the \<open>__proto__\<close>
  setter ignores it instead). A stored string stays a string.
\<close>

definition countUp :: "counts \<Rightarrow> string \<Rightarrow> counts" where
  "countUp rec k =
     (case map_of rec k of
        Some (Num n) \<Rightarrow> setProp rec k (Num (n + 1))
      | Some NonNum \<Rightarrow> setProp rec k NonNum
      | None \<Rightarrow>
          if k = ''__proto__'' then rec
          else if k \<in> set objectPrototypeKeys then setProp rec k NonNum
          else setProp rec k (Num 1))"

definition isDigit :: "char \<Rightarrow> bool" where
  "isDigit c = (48 \<le> (of_char c :: nat) \<and> (of_char c :: nat) \<le> 57)"

definition numericValue :: "string \<Rightarrow> nat" where
  "numericValue s = foldl (\<lambda>acc c. 10 * acc + (of_char c - 48)) 0 s"

text \<open>
  An array index is the canonical decimal form of an integer below \<open>2^32 - 1\<close>.
  \<open>Object.entries\<close> lists the own properties whose keys are array indices first, in
  ascending numeric order, and then the other string keys in creation order.
\<close>

definition isArrayIndex :: "string \<Rightarrow> bool" where
  "isArrayIndex k =
     (k \<noteq> [] \<and> list_all isDigit k \<and> (k = ''0'' \<or> hd k \<noteq> CHR ''0'')
      \<and> numericValue k < 4294967295)"

definition entries :: "counts \<Rightarrow> counts" where
  "entries rec =
     sort_key (\<lambda>p. numericValue (fst p)) (filter (\<lambda>p. isArrayIndex (fst p)) rec)
     @ filter (\<lambda>p. \<not> isArrayIndex (fst p)) rec"

text \<open>
  \<open>.sort((a, b) => b[1] - a[1])\<close>. The sort is stable. Where a value is a string the
  difference is \<open>NaN\<close>, which the sort reads as 0; the comparator is then consistent
  only if all the counts are equal, and for an inconsistent comparator the language
  leaves the order to the implementation: the result is \<open>None\<close>.
\<close>

definition countOf :: "jsval \<Rightarrow> int" where
  "countOf v = (case v of Num n \<Rightarrow> int n | NonNum \<Rightarrow> 0)"

definition sortByCountDesc :: "counts \<Rightarrow> counts option" where
  "sortByCountDesc es =
     (if list_all (\<lambda>e. snd e \<noteq> NonNum) es
        then Some (sort_key (\<lambda>e. - countOf (snd e)) es)
      else if list_all (\<lambda>a. list_all (\<lambda>b. snd a = NonNum \<or> snd b = NonNum \<or> snd a = snd b) es) es
        then Some es
      else None)"

text \<open>\<open>sorted[0]?.[0] || 'N/A'\<close>\<close>

definition firstKeyOrNA :: "counts \<Rightarrow> string" where
  "firstKeyOrNA es = orElse (case es of [] \<Rightarrow> None | e # _ \<Rightarrow> Some (fst e)) ''N/A''"

definition todayLogs :: "VisitorLogDTO list \<Rightarrow> string \<Rightarrow> VisitorLogDTO list" where
  "todayLogs data today = filter (\<lambda>d. date d = Some today) data"

definition todayActiveLogs :: "VisitorLogDTO list \<Rightarrow> int list \<Rightarrow> string \<Rightarrow> VisitorLogDTO list" where
  "todayActiveLogs data activeLogIds today =
     filter (\<lambda>d. visitorLogID d \<in> set activeLogIds) (todayLogs data today)"

definition locationCount :: "VisitorLogDTO list \<Rightarrow> counts" where
  "locationCount logs = foldl (\<lambda>rec d. countUp rec (orElse (location d) ''Unknown'')) [] logs"

definition gateCount :: "VisitorLogDTO list \<Rightarrow> counts" where
  "gateCount logs =
     foldl (\<lambda>rec d.
        if includesStr (toLowerCase (orElse (location d) [])) ''gate''
        then countUp rec (orElse (location d) ''Unknown gate'')
        else rec) [] logs"

text \<open>
  The two text fields of the statistics are \<open>None\<close> where the language does not
  determine the sorted order (see \<open>sortByCountDesc\<close>).
\<close>

record LogStats =
  active_stat :: nat
  uniqueToday :: nat
  frequentBuilding :: "string option"
  highestGate :: "string option"
  uniqueWeek :: nat
  uniqueMonth :: nat

text \<open>\<open>today\<close> is the value of \<open>new Date().toISOString().slice(0, 10)\<close>.\<close>

definition stats :: "VisitorLogDTO list \<Rightarrow> int list \<Rightarrow> string \<Rightarrow> LogStats option" where
  "stats data activeLogIds today =
     (if length data = 0 then None
      else Some \<lparr>
        active_stat = length (todayActiveLogs data activeLogIds today),
        uniqueToday = length (newSet (map fullName (todayLogs data today))),
        frequentBuilding =
          map_option firstKeyOrNA (sortByCountDesc (entries (locationCount (todayLogs data today)))),
        highestGate =
          map_option firstKeyOrNA (sortByCountDesc (entries (gateCount (todayLogs data today)))),
        uniqueWeek = length (newSet (map fullName data)),
        uniqueMonth = length (newSet (map fullName data)) \<rparr>)"

section \<open>LogBook: the icon of a log row\<close>

definition locationIcon :: "Station list \<Rightarrow> VisitorLogDTO \<Rightarrow> icon option" where
  "locationIcon stations row =
     (let locationName = trim (orElse (location row) [])
      in if locationName = [] then None
         else
           let matched = find (\<lambda>s. toLowerCase (trim (orElse (name s) [])) = toLowerCase locationName)
                              stations;
               stType = toLowerCase (case matched of None \<Rightarrow> [] | Some s \<Rightarrow> orElse (stationType s) []);
               looksLikeGate = includesStr (toLowerCase locationName) ''gate''
           in if stType = ''gate'' \<or> (matched = None \<and> looksLikeGate) then Some faDungeon
              else if stType = ''building'' \<or> matched \<noteq> None then Some farBuilding
              else if matched = None then Some farBuilding
              else None)"

section \<open>LogBook: location options\<close>

text \<open>
  Modelled from the spec: \<open>sortGateAware\<close> of \<open>utils/locationSort\<close> is imported by the
  component but is not among the sources. The specification asks for a stable,
  deterministic comparator that sorts gate-named entries by their embedded numeric tokens
  (\<open>Gate 2\<close> before \<open>Gate 10\<close>), sorts the other entries lexicographically, and
  interleaves gates and other entries by name. A name is cut into maximal runs of digits
  and of other characters; a run of digits is compared by its value and sorts before text.
\<close>

type_synonym token = "nat \<times> nat \<times> string"

fun tokenize :: "string \<Rightarrow> token list" where
  "tokenize [] = []"
| "tokenize (c # cs) =
     (case tokenize cs of
        [] \<Rightarrow> [if isDigit c then (0, numericValue [c], [c]) else (1, 0, [c])]
      | (k, v, t) # rest \<Rightarrow>
          if isDigit c then
            (if k = 0 then (0, numericValue (c # t), c # t) # rest
             else (0, numericValue [c], [c]) # (k, v, t) # rest)
          else
            (if k = 0 then (1, 0, [c]) # (k, v, t) # rest
             else (1, 0, c # t) # rest))"

definition gateAwareKey :: "string \<Rightarrow> token list" where
  "gateAwareKey s = (if includesStr (toLowerCase s) ''gate'' then tokenize s else [(1, 0, s)])"

definition sortGateAware :: "string list \<Rightarrow> string list" where
  "sortGateAware xs = sort_key gateAwareKey xs"

definition locationOptions :: "Station list \<Rightarrow> string list" where
  "locationOptions stations =
     (if length stations = 0 then []
      else sortGateAware (newSet (filter (\<lambda>n. n \<noteq> [] \<and> n \<noteq> ''N/A'')
                                    (map (\<lambda>s. trim (orElse (name s) [])) stations))))"

section \<open>Stations: component state and external calls\<close>

text \<open>
  The state of the \<open>Stations\<close> component, one field per \<open>useState\<close> that the
  handlers below read or write. An awaited call of the data-access layer either resolves
  with a value or rejects with an error, of which the handlers read \<open>err?.message\<close>.
  A handler returns the calls it has issued, in order, and the next state.
\<close>

record StationsState =
  stations :: "Station list"
  currentType :: stationKind
  showInactive :: bool
  selectedStationId :: "int option"
  assignedUsers :: "AssignedUser list"
  selectedGuardIds :: "int list"
  assignModalOpen :: bool
  createName :: string
  createType :: stationKind
  createError :: "string option"
  createModalOpen :: bool
  renameName :: string
  renameType :: stationKind
  renameError :: "string option"
  renameModalOpen :: bool
  error_msg :: "string option"

definition initialState :: StationsState where
  "initialState =
     \<lparr> stations = [], currentType = Gate, showInactive = False, selectedStationId = None,
       assignedUsers = [], selectedGuardIds = [], assignModalOpen = False,
       createName = [], createType = Gate, createError = None, createModalOpen = False,
       renameName = [], renameType = Gate, renameError = None, renameModalOpen = False,
       error_msg = None \<rparr>"

datatype 'a response = Resolved 'a | Rejected "string option"

datatype apiCall =
    CreateStationCall string stationKind bool
  | UpdateStationCall int string "bool option" stationKind
  | UpdateStationGuardsCall int "int list"
  | GetStationGuardsCall int

section \<open>Stations: listing and icons\<close>

text \<open>The callback of \<open>stations.filter\<close> in \<open>filteredStations\<close>.\<close>

definition stationShown :: "stationKind \<Rightarrow> bool \<Rightarrow> Station \<Rightarrow> bool" where
  "stationShown ct inact s =
     (let rawType = toLowerCase (orElse (stationType s) []);
          nm = toLowerCase (orElse (name s) []);
          matchesType =
            (if rawType = ''gate'' \<or> rawType = ''building'' then rawType = kindString ct
             else if nm = [] then True
             else if ct = Gate then includesStr nm ''gate''
             else \<not> includesStr nm ''gate'')
      in if \<not> matchesType then False
         else if \<not> inact then active s \<noteq> Some False
         else True)"

definition filteredStations :: "StationsState \<Rightarrow> Station list" where
  "filteredStations st = filter (stationShown (currentType st) (showInactive st)) (stations st)"

text \<open>The icon of a station in the list and in the detail header.\<close>

definition stationIcon :: "Station \<Rightarrow> icon" where
  "stationIcon s =
     (let t = toLowerCase (orElse (stationType s) []);
          looksLikeGate = includesStr (toLowerCase (orElse (name s) [])) ''gate''
      in if t = ''gate'' \<or> (t = [] \<and> looksLikeGate) then faDungeon else farBuilding)"

section \<open>Stations: guard assignment\<close>

text \<open>
  The effect that runs when the selected station changes; \<open>resp\<close> is what
  \<open>getStationGuards\<close> settles to. The effect is taken to run to its end before the
  selection changes again, so its \<open>cancelled\<close> flag stays false.
\<close>

definition fetchGuardsForStation ::
  "AssignedUser list response \<Rightarrow> StationsState \<Rightarrow> apiCall list \<times> StationsState" where
  "fetchGuardsForStation resp st =
     (case selectedStationId st of
        None \<Rightarrow> ([], st\<lparr>assignedUsers := [], selectedGuardIds := []\<rparr>)
      | Some i \<Rightarrow>
          (case resp of
             Resolved guards \<Rightarrow>
               ([GetStationGuardsCall i],
                st\<lparr>assignedUsers := guards, selectedGuardIds := map user_id guards\<rparr>)
           | Rejected m \<Rightarrow>
               ([GetStationGuardsCall i],
                st\<lparr>error_msg := Some (orElse m ''Failed to load guards for station'')\<rparr>)))"

definition handleToggleGuardSelection :: "int \<Rightarrow> StationsState \<Rightarrow> StationsState" where
  "handleToggleGuardSelection guardId st =
     st\<lparr>selectedGuardIds :=
          (if guardId \<in> set (selectedGuardIds st)
           then filter (\<lambda>i. i \<noteq> guardId) (selectedGuardIds st)
           else selectedGuardIds st @ [guardId])\<rparr>"

text \<open>\<open>if (!selectedStationId) return\<close> also returns for the id 0.\<close>

definition handleSaveAssignments ::
  "unit response \<Rightarrow> AssignedUser list response \<Rightarrow> StationsState \<Rightarrow> apiCall list \<times> StationsState" where
  "handleSaveAssignments updResp getResp st =
     (case selectedStationId st of
        None \<Rightarrow> ([], st)
      | Some i \<Rightarrow>
          if i = 0 then ([], st)
          else
            (case updResp of
               Rejected m \<Rightarrow>
                 ([UpdateStationGuardsCall i (selectedGuardIds st)],
                  st\<lparr>error_msg := Some (orElse m ''Failed to update station guards'')\<rparr>)
             | Resolved _ \<Rightarrow>
                 (case getResp of
                    Rejected m \<Rightarrow>
                      ([UpdateStationGuardsCall i (selectedGuardIds st), GetStationGuardsCall i],
                       st\<lparr>error_msg := Some (orElse m ''Failed to update station guards'')\<rparr>)
                  | Resolved updated \<Rightarrow>
                      ([UpdateStationGuardsCall i (selectedGuardIds st), GetStationGuardsCall i],
                       st\<lparr>assignedUsers := updated, assignModalOpen := False\<rparr>))))"

text \<open>What the operator does to the guard selection, with the answers of the data-access layer.\<close>

datatype action =
    SelectStation "int option" "AssignedUser list response"
  | ToggleGuard int
  | SaveAssignments "unit response" "AssignedUser list response"

fun step :: "StationsState \<Rightarrow> action \<Rightarrow> StationsState" where
  "step st (SelectStation sel resp) = snd (fetchGuardsForStation resp (st\<lparr>selectedStationId := sel\<rparr>))"
| "step st (ToggleGuard g) = handleToggleGuardSelection g st"
| "step st (SaveAssignments u g) = snd (handleSaveAssignments u g st)"

definition run :: "StationsState \<Rightarrow> action list \<Rightarrow> StationsState" where
  "run st acts = foldl step st acts"

text \<open>The guard lists that the data-access layer delivers are sets: no id occurs twice.\<close>

fun fetchedSet :: "action \<Rightarrow> bool" where
  "fetchedSet (SelectStation sel (Resolved guards)) = distinct (map user_id guards)"
| "fetchedSet _ = True"

section \<open>Stations: create and rename\<close>

definition emptyNameMessage :: string where
  "emptyNameMessage = ''Please enter a station name.''"

definition duplicateNameMessage :: string where
  "duplicateNameMessage = ''A station with that name already exists.''"

text \<open>The name that is sent: \<open>Gate\<close> and a space are put in front for a gate whose name lacks the word.\<close>

definition finalNameOf :: "stationKind \<Rightarrow> string \<Rightarrow> string" where
  "finalNameOf k rawName =
     (if k = Gate \<and> \<not> includesStr (toLowerCase rawName) ''gate'' then ''Gate '' @ rawName
      else rawName)"

definition handleCreateStation :: "Station response \<Rightarrow> StationsState \<Rightarrow> apiCall list \<times> StationsState" where
  "handleCreateStation resp st =
     (let st1 = st\<lparr>createError := None\<rparr>;
          rawName = trim (createName st)
      in if rawName = [] then ([], st1\<lparr>createError := Some emptyNameMessage\<rparr>)
         else if list_ex (\<lambda>s. toLowerCase (orElse (name s) []) = toLowerCase rawName) (stations st)
           then ([], st1\<lparr>createError := Some duplicateNameMessage\<rparr>)
         else
           let finalName = finalNameOf (createType st) rawName
           in (case resp of
                 Resolved created \<Rightarrow>
                   ([CreateStationCall finalName (createType st) True],
                    st1\<lparr>stations := stations st @
                           [created\<lparr>active := Some (case active created of None \<Rightarrow> True | Some b \<Rightarrow> b),
                                    stationType := Some (nullish (stationType created)
                                                          (kindString (createType st)))\<rparr>],
                        createModalOpen := False\<rparr>)
               | Rejected m \<Rightarrow>
                   ([CreateStationCall finalName (createType st) True],
                    st1\<lparr>createError := Some (orElse m ''Failed to create station.'')\<rparr>)))"

text \<open>\<open>selectedStationId ? stations.find(...) || null : null\<close>: the id 0 selects nothing.\<close>

definition selectedStation :: "StationsState \<Rightarrow> Station option" where
  "selectedStation st =
     (case selectedStationId st of
        None \<Rightarrow> None
      | Some i \<Rightarrow> if i = 0 then None else find (\<lambda>s. station_id s = i) (stations st))"

text \<open>The station record of the response replaces the fields of the stored one.\<close>

definition handleRenameStation :: "Station response \<Rightarrow> StationsState \<Rightarrow> apiCall list \<times> StationsState" where
  "handleRenameStation resp st =
     (case selectedStation st of
        None \<Rightarrow> ([], st)
      | Some sel \<Rightarrow>
          let rawName = trim (renameName st)
          in if rawName = [] then ([], st\<lparr>renameError := Some emptyNameMessage\<rparr>)
             else
               let finalName = finalNameOf (renameType st) rawName;
                   call = UpdateStationCall (station_id sel) finalName (active sel) (renameType st)
               in (case resp of
                     Resolved updated \<Rightarrow>
                       ([call],
                        st\<lparr>stations :=
                             map (\<lambda>s. if station_id s = station_id sel
                                       then updated\<lparr>active := Some (case active updated of
                                                                        Some b \<Rightarrow> b
                                                                      | None \<Rightarrow> (case active s of
                                                                                  Some b \<Rightarrow> b
                                                                                | None \<Rightarrow> True)),
                                                    stationType := Some (nullish (stationType updated)
                                                                          (kindString (renameType st)))\<rparr>
                                       else s) (stations st),
                           renameModalOpen := False\<rparr>)
                   | Rejected m \<Rightarrow>
                       ([call], st\<lparr>renameError := Some (orElse m ''Failed to rename station.'')\<rparr>)))"

section \<open>The station classifier of the specification\<close>

text \<open>
  The specification describes one classifier: the stored type decides when it is
  \<open>gate\<close> or \<open>building\<close> (in any letter case); otherwise a name that contains
  \<open>gate\<close> (in any letter case) is a gate, and everything else is a building. The
  components have no such function; each place that needs a category decides for itself.
  \<open>classify_spec\<close> follows the words of the specification, to be compared with them.
\<close>

definition classify_spec :: "Station \<Rightarrow> stationKind" where
  "classify_spec s =
     (if toLowerCase (orElse (stationType s) []) = ''gate'' then Gate
      else if toLowerCase (orElse (stationType s) []) = ''building'' then Building
      else if includesStr (toLowerCase (orElse (name s) [])) ''gate'' then Gate
      else Building)"

definition iconOf :: "stationKind \<Rightarrow> icon" where
  "iconOf k = (case k of Gate \<Rightarrow> faDungeon | Building \<Rightarrow> farBuilding)"

section \<open>The most frequent location of the specification\<close>

text \<open>
  The specification asks for the value with the highest number of occurrences, the first
  encountered winning a tie, and for \<open>N/A\<close> when there is no value.
  \<open>mostFrequent_spec\<close> follows these words: it is the first value of the list, in the
  order of the list, that no value outnumbers.
\<close>

definition mostFrequent_spec :: "string list \<Rightarrow> string" where
  "mostFrequent_spec keys =
     (case filter (\<lambda>x. \<forall>y \<in> set keys. count_list keys y \<le> count_list keys x) keys of
        [] \<Rightarrow> ''N/A''
      | x # _ \<Rightarrow> x)"

section \<open>Sample inputs\<close>

text \<open>The three log entries, the active set and the day of the example of the specification.\<close>

definition mkLog :: "int \<Rightarrow> string \<Rightarrow> string \<Rightarrow> string \<Rightarrow> VisitorLogDTO" where
  "mkLog i d l n =
     \<lparr> visitorLogID = i, fullName = Some n, idType = None, passNo = None, location = Some l,
       purposeOfVisit = None, loggedBy = None, date = Some d, time = None \<rparr>"

definition sampleLogs :: "VisitorLogDTO list" where
  "sampleLogs =
     [mkLog 1 ''2024-01-01'' ''Gate 1'' ''A'',
      mkLog 2 ''2024-01-01'' ''Gate 1'' ''B'',
      mkLog 3 ''2024-01-02'' ''Lobby'' ''A'']"

definition mkStation :: "int \<Rightarrow> string \<Rightarrow> string option \<Rightarrow> Station" where
  "mkStation i n t = \<lparr> station_id = i, name = Some n, stationType = t, active = Some True \<rparr>"

definition guardsOf3 :: "AssignedUser list" where
  "guardsOf3 =
     [\<lparr>user_id = 1, username = ''ana'', accountType = ''GUARD''\<rparr>,
      \<lparr>user_id = 2, username = ''ben'', accountType = ''GUARD''\<rparr>]"

definition sampleActions :: "action list" where
  "sampleActions =
     [SelectStation (Some 3) (Resolved guardsOf3),
      ToggleGuard 2, ToggleGuard 5, ToggleGuard 5, ToggleGuard 7]"

definition sampleStations :: "Station list" where
  "sampleStations =
     [mkStation 1 ''Gate 1'' (Some ''gate''),
      mkStation 2 ''Library'' None,
      \<lparr> station_id = 3, name = None, stationType = None, active = None \<rparr>,
      \<lparr> station_id = 4, name = Some ''Gate 9'', stationType = Some ''GATE'', active = Some False \<rparr>,
      mkStation 5 ''West Gate'' None]"

definition sampleState :: StationsState where
  "sampleState = initialState\<lparr>stations := sampleStations\<rparr>"

text \<open>A stored station whose name carries a leading space, and the form that adds \<open>Lobby\<close>.\<close>

definition paddedState :: StationsState where
  "paddedState =
     initialState\<lparr>stations := [mkStation 1 '' Lobby'' (Some ''building'')],
                  createName := ''Lobby'', createType := Building\<rparr>"

text \<open>The station 5 is selected and is renamed to the name of the station 1, in other letters.\<close>

definition renameState :: StationsState where
  "renameState =
     sampleState\<lparr>selectedStationId := Some 5, renameName := '' gate 1 '', renameType := Gate\<rparr>"

text \<open>Two logs of one day, the second at a location whose name is a number.\<close>

definition numberedLogs :: "VisitorLogDTO list" where
  "numberedLogs =
     [mkLog 1 ''2024-01-01'' ''Lobby'' ''A'',
      mkLog 2 ''2024-01-01'' ''7'' ''B'']"

text \<open>Three logs of one day, the first at a location named as a property that objects inherit.\<close>

definition inheritedLogs :: "VisitorLogDTO list" where
  "inheritedLogs =
     [mkLog 1 ''2024-01-01'' ''constructor'' ''A'',
      mkLog 2 ''2024-01-01'' ''Lobby'' ''B'',
      mkLog 3 ''2024-01-01'' ''Lobby'' ''C'']"

text \<open>Four logs of one day at two locations, two logs each.\<close>

definition tiedLogs :: "VisitorLogDTO list" where
  "tiedLogs =
     [mkLog 1 ''2024-01-01'' ''Lobby'' ''A'',
      mkLog 2 ''2024-01-01'' ''Gate 1'' ''B'',
      mkLog 3 ''2024-01-01'' ''Gate 1'' ''C'',
      mkLog 4 ''2024-01-01'' ''Lobby'' ''D'']"

section \<open>Facts about strings\<close>

lemma startsWith_iff_prefix: "startsWith s t \<longleftrightarrow> prefix t s"
  by (induction s t rule: startsWith.induct) auto

lemma includesStr_iff_sublist: "includesStr s t \<longleftrightarrow> sublist t s"
proof (induction s)
  case Nil
  then show ?case by simp
next
  case (Cons c s)
  then show ?case
    by (simp only: includesStr.simps startsWith_iff_prefix sublist_Cons_right) 
qed

lemma isWhiteSpace_toLowerChar: "isWhiteSpace (toLowerChar c) = isWhiteSpace c"
  by (cases c) (simp add: toLowerChar_def isWhiteSpace_def Let_def; fastforce)

lemma dropWhile_ws_toLowerCase:
  "dropWhile isWhiteSpace (toLowerCase s) = toLowerCase (dropWhile isWhiteSpace s)"
  by (induction s) (simp_all add: toLowerCase_def isWhiteSpace_toLowerChar)

lemma toLowerCase_rev: "toLowerCase (rev s) = rev (toLowerCase s)"
  by (simp add: toLowerCase_def rev_map)

lemma trim_toLowerCase: "trim (toLowerCase s) = toLowerCase (trim s)"
  by (simp add: trim_def dropWhile_ws_toLowerCase toLowerCase_rev [symmetric])

lemma toLowerCase_Nil_iff: "toLowerCase s = [] \<longleftrightarrow> s = []"
  by (simp add: toLowerCase_def)

section \<open>Facts about insertion-ordered sets\<close>

lemma foldl_setAdd_set: "set (foldl setAdd acc xs) = set acc \<union> set xs"
  by (induction xs arbitrary: acc) (auto simp: setAdd_def)

lemma foldl_setAdd_distinct: "distinct acc \<Longrightarrow> distinct (foldl setAdd acc xs)"
  by (induction xs arbitrary: acc) (simp_all add: setAdd_def)

lemma set_newSet: "set (newSet xs) = set xs"
  by (simp add: newSet_def foldl_setAdd_set)

lemma distinct_newSet: "distinct (newSet xs)"
  by (simp add: newSet_def foldl_setAdd_distinct)

lemma size_newSet: "length (newSet xs) = card (set xs)"
  using distinct_card [OF distinct_newSet, of xs] by (simp add: set_newSet)

section \<open>Filtering the log book\<close>

text \<open>
  Claim C4. For every list of logs \<open>L\<close>, active ids \<open>A\<close> and criteria, the filtered
  list is a subsequence of \<open>L\<close> in the original order, and an entry is kept exactly when
  it passes the three tests: its id is in (or out of) the active set as the status filter
  asks; when the location filter is not \<open>all\<close>, the log's location is not blank and,
  trimmed and in lower case, equals the filter value trimmed and in lower case; when the
  search text is not empty, the search text in lower case is a substring of at least one
  of the eight fields taken in lower case, a missing field counting as the empty string.
\<close>

theorem filteredLogs_keeps_exactly:
  "subseq (filteredLogs L A search sf lf) L \<and>
   filteredLogs L A search sf lf =
     filter (\<lambda>e.
        (case sf of
           StatusAll \<Rightarrow> True
         | StatusActive \<Rightarrow> visitorLogID e \<in> set A
         | StatusInactive \<Rightarrow> visitorLogID e \<notin> set A)
      \<and> (lf = ''all'' \<or>
           (trim (orElse (location e) []) \<noteq> [] \<and>
            trim (toLowerCase (orElse (location e) [])) = trim (toLowerCase lf)))
      \<and> (search = [] \<or>
           (let has = (\<lambda>field. sublist (toLowerCase search) (toLowerCase (nullish field [])))
            in has (fullName e) \<or> has (idType e) \<or> has (passNo e) \<or> has (location e) \<or>
               has (purposeOfVisit e) \<or> has (loggedBy e) \<or> has (date e) \<or> has (time e)))) L"
proof
  show "subseq (filteredLogs L A search sf lf) L"
    by (simp add: filteredLogs_def)
next
  have "keepLog A search sf lf e \<longleftrightarrow>
        (case sf of
           StatusAll \<Rightarrow> True
         | StatusActive \<Rightarrow> visitorLogID e \<in> set A
         | StatusInactive \<Rightarrow> visitorLogID e \<notin> set A)
      \<and> (lf = ''all'' \<or>
           (trim (orElse (location e) []) \<noteq> [] \<and>
            trim (toLowerCase (orElse (location e) [])) = trim (toLowerCase lf)))
      \<and> (search = [] \<or>
           (let has = (\<lambda>field. sublist (toLowerCase search) (toLowerCase (nullish field [])))
            in has (fullName e) \<or> has (idType e) \<or> has (passNo e) \<or> has (location e) \<or>
               has (purposeOfVisit e) \<or> has (loggedBy e) \<or> has (date e) \<or> has (time e)))" for e
    by (cases sf)
       (auto simp: keepLog_def isActive_def searchFields_def Let_def trim_toLowerCase
                   toLowerCase_Nil_iff includesStr_iff_sublist)
  then show "filteredLogs L A search sf lf = filter (\<lambda>e.
        (case sf of
           StatusAll \<Rightarrow> True
         | StatusActive \<Rightarrow> visitorLogID e \<in> set A
         | StatusInactive \<Rightarrow> visitorLogID e \<notin> set A)
      \<and> (lf = ''all'' \<or>
           (trim (orElse (location e) []) \<noteq> [] \<and>
            trim (toLowerCase (orElse (location e) [])) = trim (toLowerCase lf)))
      \<and> (search = [] \<or>
           (let has = (\<lambda>field. sublist (toLowerCase search) (toLowerCase (nullish field [])))
            in has (fullName e) \<or> has (idType e) \<or> has (passNo e) \<or> has (location e) \<or>
               has (purposeOfVisit e) \<or> has (loggedBy e) \<or> has (date e) \<or> has (time e)))) L"
    unfolding filteredLogs_def by (intro filter_cong refl) 
qed

theorem filteredLogs_keeps_exactly_witness:
  "filteredLogs sampleLogs [1, 3] ''GATE'' StatusActive '' gate 1 '' = [mkLog 1 ''2024-01-01'' ''Gate 1'' ''A''] \<and>
   subseq [mkLog 1 ''2024-01-01'' ''Gate 1'' ''A''] sampleLogs"
  using filteredLogs_keeps_exactly [of sampleLogs "[1, 3]" "''GATE''" StatusActive "'' gate 1 ''"]
  by (simp add: sampleLogs_def mkLog_def filteredLogs_def keepLog_def isActive_def searchFields_def
      Let_def trim_def isWhiteSpace_def toLowerCase_def toLowerChar_def orElse_def nullish_def)

section \<open>Pagination\<close>

lemma ceil_nat_bounds:
  assumes "0 < (d::nat)"
  shows "n \<le> ((n + d - 1) div d) * d" and "((n + d - 1) div d) * d < n + d"
proof -
  have e: "(n + d - 1) div d * d + (n + d - 1) mod d = n + d - 1" by simp
  have m: "(n + d - 1) mod d < d" using assms by simp
  from e m assms show "n \<le> ((n + d - 1) div d) * d" by linarith
  from e assms show "((n + d - 1) div d) * d < n + d" by linarith
qed

lemma ceil_div_nat:
  assumes "0 < d"
  shows "\<lceil>real n / real d\<rceil> = int ((n + d - 1) div d)"
proof (rule ceiling_unique)
  let ?k = "(n + d - 1) div d"
  have "real (?k * d) < real (n + d)"
    using ceil_nat_bounds(2) [OF assms, of n] by (simp only: of_nat_less_iff)
  then have "real ?k * real d - real d < real n" by simp
  then have "(real ?k - 1) * real d < real n" by (simp add: algebra_simps)
  then show "real_of_int (int ?k) - 1 < real n / real d"
    using assms by (simp add: pos_less_divide_eq)
  have "real n \<le> real (?k * d)"
    using ceil_nat_bounds(1) [OF assms, of n] by (simp only: of_nat_le_iff)
  then show "real n / real d \<le> real_of_int (int ?k)"
    using assms by (simp add: pos_divide_le_eq)
qed

lemma pages_concat_take:
  "concat (map (\<lambda>p. take n (drop (p * n) xs)) [0..<k]) = take (k * n) xs"
proof (induction k)
  case 0
  then show ?case by simp
next
  case (Suc k)
  have "take (k * n) xs @ take n (drop (k * n) xs) = take (k * n + n) xs"
    by (simp add: take_add)
  with Suc show ?case by (simp add: add.commute)
qed


lemma totalPages_pos:
  "0 < pageSize \<Longrightarrow>
   totalPages f pageSize = Some ((length f + pageSize - 1) div pageSize)"
  by (simp add: totalPages_def totalElements_def)

lemma pages_zero_iff:
  assumes "0 < pageSize"
  shows "(length f + pageSize - 1) div pageSize = 0 \<longleftrightarrow> length f = 0"
proof -
  have "0 < (length f + pageSize - 1) div pageSize" if "0 < length f"
  proof -
    from that assms have "pageSize \<le> length f + pageSize - 1" by linarith
    with assms show ?thesis by (simp add: div_greater_zero_iff)
  qed
  moreover have "(length f + pageSize - 1) div pageSize = 0" if "length f = 0"
    using that assms by simp
  ultimately show ?thesis by (cases "length f = 0") simp_all
qed

lemma currentPage_below:
  "0 < pageSize \<Longrightarrow> p < (length f + pageSize - 1) div pageSize \<Longrightarrow> currentPage f p pageSize = p"
  by (simp add: currentPage_def totalPages_pos)

lemma pagedLogs_take_drop:
  "pagedLogs f page pageSize = take pageSize (drop (currentPage f page pageSize * pageSize) f)"
  by (simp add: pagedLogs_def slice_def)

lemma pages_concat:
  assumes "0 < pageSize"
  shows "concat (map (\<lambda>p. pagedLogs f p pageSize) [0..<(length f + pageSize - 1) div pageSize]) = f"
proof -
  let ?tp = "(length f + pageSize - 1) div pageSize"
  have "map (\<lambda>p. pagedLogs f p pageSize) [0..<?tp]
        = map (\<lambda>p. take pageSize (drop (p * pageSize) f)) [0..<?tp]"
    by (rule map_cong) (simp_all add: pagedLogs_take_drop currentPage_below [OF assms])
  then have "concat (map (\<lambda>p. pagedLogs f p pageSize) [0..<?tp]) = take (?tp * pageSize) f"
    by (simp only: pages_concat_take)
  moreover have "length f \<le> ?tp * pageSize"
    by (rule ceil_nat_bounds(1) [OF assms])
  ultimately show ?thesis by simp
qed

text \<open>
  Claim C5. For every filtered list and every page size above 0: the number of pages is
  the ceiling of the number of elements over the page size, and it is 0 exactly when
  there is no element; the page that is sliced is \<open>min (page, totalPages - 1)\<close> raised to
  0 when it is negative, whatever \<open>page\<close> the component holds; and the pages, taken in
  order, concatenate to the filtered list, so that no element is lost or shown twice.
\<close>

theorem pagination_partitions:
  assumes "0 < pageSize"
  shows "\<exists>tp. totalPages f pageSize = Some tp \<and>
           int tp = \<lceil>real (totalElements f) / real pageSize\<rceil> \<and>
           (tp = 0 \<longleftrightarrow> totalElements f = 0) \<and>
           int (currentPage f page pageSize) = max 0 (min (int page) (int tp - 1)) \<and>
           pagedLogs f page pageSize = take pageSize (drop (currentPage f page pageSize * pageSize) f) \<and>
           concat (map (\<lambda>p. pagedLogs f p pageSize) [0..<tp]) = f"
proof (intro exI conjI)
  let ?tp = "(length f + pageSize - 1) div pageSize"
  show tp: "totalPages f pageSize = Some ?tp"
    by (rule totalPages_pos [OF assms])
  show "int ?tp = \<lceil>real (totalElements f) / real pageSize\<rceil>"
    using assms by (simp add: totalElements_def ceil_div_nat)
  show "?tp = 0 \<longleftrightarrow> totalElements f = 0"
    unfolding totalElements_def by (rule pages_zero_iff [OF assms])
  show "int (currentPage f page pageSize) = max 0 (min (int page) (int ?tp - 1))"
    by (auto simp: currentPage_def tp min_def max_def)
  show "pagedLogs f page pageSize = take pageSize (drop (currentPage f page pageSize * pageSize) f)"
    by (rule pagedLogs_take_drop)
  show "concat (map (\<lambda>p. pagedLogs f p pageSize) [0..<?tp]) = f"
    by (rule pages_concat [OF assms])
qed

theorem pagination_partitions_witness:
  "(0::nat) < 2 \<and> totalPages sampleLogs 2 = Some 2 \<and> currentPage sampleLogs 7 2 = 1 \<and>
   pagedLogs sampleLogs 7 2 = [mkLog 3 ''2024-01-02'' ''Lobby'' ''A''] \<and>
   concat (map (\<lambda>p. pagedLogs sampleLogs p 2) [0..<2]) = sampleLogs"
proof -
  have h: "(0::nat) < 2" by simp
  have tp: "totalPages sampleLogs 2 = Some 2"
    by (simp add: totalPages_def totalElements_def sampleLogs_def)
  have cp: "currentPage sampleLogs 7 2 = 1"
    by (simp add: currentPage_def tp)
  from pagination_partitions [OF h, of sampleLogs 7] cp tp show ?thesis
    by (auto simp: sampleLogs_def)
qed

section \<open>Statistics: counts\<close>

text \<open>
  Claim C6. For every non-empty list of logs, every active set and every day, the
  statistics exist and: the logs of the day are those whose date is the string of the day;
  \<open>active\<close> is the number of logs of the day whose id is in the active set;
  \<open>uniqueToday\<close> is the number of distinct full names among the logs of the day;
  \<open>uniqueWeek\<close> and \<open>uniqueMonth\<close> are both the number of distinct full names of the
  whole list.
\<close>

theorem stats_counts:
  assumes "logs \<noteq> []"
  shows "\<exists>st. stats logs A today = Some st \<and>
           todayLogs logs today = filter (\<lambda>d. date d = Some today) logs \<and>
           active_stat st = length (filter (\<lambda>d. visitorLogID d \<in> set A) (todayLogs logs today)) \<and>
           uniqueToday st = card (fullName ` set (todayLogs logs today)) \<and>
           uniqueWeek st = card (fullName ` set logs) \<and>
           uniqueMonth st = card (fullName ` set logs)"
  using assms
  by (simp add: stats_def todayActiveLogs_def todayLogs_def size_newSet)

theorem stats_counts_witness:
  "sampleLogs \<noteq> [] \<and>
   (\<exists>st. stats sampleLogs [1] ''2024-01-01'' = Some st \<and> active_stat st = 1 \<and>
         uniqueToday st = 2 \<and> uniqueWeek st = 2 \<and> uniqueMonth st = 2)"
proof -
  have h: "sampleLogs \<noteq> []" by (simp add: sampleLogs_def)
  have a: "fullName ` set (todayLogs sampleLogs ''2024-01-01'') = {Some ''A'', Some ''B''}"
    by (auto simp: todayLogs_def sampleLogs_def mkLog_def)
  have b: "fullName ` set sampleLogs = {Some ''A'', Some ''B''}"
    by (auto simp: sampleLogs_def mkLog_def)
  have c: "length (filter (\<lambda>d. visitorLogID d \<in> set [1]) (todayLogs sampleLogs ''2024-01-01'')) = 1"
    by (simp add: todayLogs_def sampleLogs_def mkLog_def)
  from stats_counts [OF h, of "[1]" "''2024-01-01''"] obtain st where
    "stats sampleLogs [1] ''2024-01-01'' = Some st"
    "active_stat st = length (filter (\<lambda>d. visitorLogID d \<in> set [1]) (todayLogs sampleLogs ''2024-01-01''))"
    "uniqueToday st = card (fullName ` set (todayLogs sampleLogs ''2024-01-01''))"
    "uniqueWeek st = card (fullName ` set sampleLogs)"
    "uniqueMonth st = card (fullName ` set sampleLogs)"
    by blast
  with a b c h show ?thesis by simp
qed

section \<open>Statistics: the most frequent location\<close>

subsection \<open>Properties of a counter object\<close>

lemma setProp_absent: "k \<notin> fst ` set rec \<Longrightarrow> setProp rec k v = rec @ [(k, v)]"
  by (induction rec) auto

lemma setProp_keys_present: "k \<in> fst ` set rec \<Longrightarrow> map fst (setProp rec k v) = map fst rec"
  by (induction rec) auto

lemma setProp_set_present:
  "distinct (map fst rec) \<Longrightarrow> k \<in> fst ` set rec \<Longrightarrow>
   set (setProp rec k v) = insert (k, v) {p \<in> set rec. fst p \<noteq> k}"
  by (induction rec) (auto simp: setProp_absent image_iff)

lemma map_of_absent: "k \<notin> fst ` set rec \<Longrightarrow> map_of rec k = None"
  by (simp add: map_of_eq_None_iff)

lemma proto_in_objectPrototypeKeys: "''__proto__'' \<in> set objectPrototypeKeys"
  by (simp add: objectPrototypeKeys_def)

text \<open>
  Counting keys of which none is inherited: the object owns the keys in the order of
  their first occurrence, each with the number of its occurrences.
\<close>

lemma tally_invariant:
  assumes "\<forall>k \<in> set keys. k \<notin> set objectPrototypeKeys"
  shows "map fst (foldl countUp [] keys) = newSet keys \<and>
         (\<forall>p \<in> set (foldl countUp [] keys). snd p = Num (count_list keys (fst p)))"
  using assms
proof (induction keys rule: rev_induct)
  case Nil
  then show ?case by (simp add: newSet_def)
next
  case (snoc x keys)
  let ?rec = "foldl countUp [] keys"
  from snoc have keys: "map fst ?rec = newSet keys"
    and vals: "\<forall>p \<in> set ?rec. snd p = Num (count_list keys (fst p))"
    and x: "x \<notin> set objectPrototypeKeys" by simp_all
  have dist: "distinct (map fst ?rec)" by (simp add: keys distinct_newSet)
  have dom: "fst ` set ?rec = set keys"
    using keys set_newSet [of keys] by (metis set_map)
  have ns: "newSet (keys @ [x]) = setAdd (newSet keys) x" by (simp add: newSet_def)
  show ?case
  proof (cases "x \<in> set keys")
    case True
    with dom obtain v where pv: "(x, v) \<in> set ?rec" by force
    with vals have v: "v = Num (count_list keys x)" by force
    from pv dist have mo: "map_of ?rec x = Some v" by simp
    have rec': "countUp ?rec x = setProp ?rec x (Num (count_list keys x + 1))"
      by (simp add: countUp_def mo v)
    have inx: "x \<in> fst ` set ?rec" using dom True by simp
    have "map fst (foldl countUp [] (keys @ [x])) = newSet (keys @ [x])"
      using True by (simp add: rec' setProp_keys_present [OF inx] keys ns setAdd_def set_newSet)
    moreover have "\<forall>p \<in> set (foldl countUp [] (keys @ [x])).
                     snd p = Num (count_list (keys @ [x]) (fst p))"
      using vals by (auto simp: rec' setProp_set_present [OF dist inx])
    ultimately show ?thesis by blast
  next
    case False
    with dom have nx: "x \<notin> fst ` set ?rec" by simp
    from x have np: "x \<noteq> ''__proto__''" using proto_in_objectPrototypeKeys by auto
    have rec': "countUp ?rec x = ?rec @ [(x, Num 1)]"
      using x np by (simp add: countUp_def map_of_absent [OF nx] setProp_absent [OF nx])
    have "map fst (foldl countUp [] (keys @ [x])) = newSet (keys @ [x])"
      using False by (simp add: rec' keys ns setAdd_def set_newSet)
    moreover have "\<forall>p \<in> set (foldl countUp [] (keys @ [x])).
                     snd p = Num (count_list (keys @ [x]) (fst p))"
      using vals False dom by (auto simp: rec' image_iff)
    ultimately show ?thesis by blast
  qed
qed


lemma tally_keys:
  "\<forall>k \<in> set keys. k \<notin> set objectPrototypeKeys \<Longrightarrow> fst ` set (foldl countUp [] keys) = set keys"
  using tally_invariant [of keys] set_newSet [of keys] by (metis set_map)

subsection \<open>The head of a stable sort\<close>

lemma hd_insort_key:
  "hd (insort_key f a ys) = (if ys = [] \<or> f a \<le> f (hd ys) then a else hd ys)"
  by (cases ys) simp_all

lemma sort_key_Nil_iff: "sort_key f xs = [] \<longleftrightarrow> xs = []"
  by (cases xs) (simp_all add: insort_not_Nil)

lemma sort_key_first_min:
  "es \<noteq> [] \<Longrightarrow>
   \<exists>pre x post. es = pre @ x # post \<and> hd (sort_key f es) = x \<and>
                 (\<forall>y \<in> set pre. f x < f y) \<and> (\<forall>y \<in> set post. f x \<le> f y)"
proof (induction es)
  case Nil
  then show ?case by simp
next
  case (Cons a es)
  show ?case
  proof (cases "es = []")
    case True
    then have "a # es = [] @ a # [] \<and> hd (sort_key f (a # es)) = a" by simp
    then show ?thesis using True by fastforce
  next
    case False
    with Cons obtain pre x post where d: "es = pre @ x # post" and h: "hd (sort_key f es) = x"
      and b: "\<forall>y \<in> set pre. f x < f y" and c: "\<forall>y \<in> set post. f x \<le> f y" by blast
    from False have ne: "sort_key f es \<noteq> []" by (simp add: sort_key_Nil_iff)
    show ?thesis
    proof (cases "f a \<le> f x")
      case True
      have "hd (sort_key f (a # es)) = a" using True h ne by (simp add: hd_insort_key)
      moreover have "\<forall>y \<in> set es. f a \<le> f y" using True b c d by fastforce
      ultimately have "a # es = [] @ a # es \<and> hd (sort_key f (a # es)) = a \<and>
          (\<forall>y \<in> set []. f a < f y) \<and> (\<forall>y \<in> set es. f a \<le> f y)" by simp
      then show ?thesis by blast
    next
      case False
      have "hd (sort_key f (a # es)) = x" using False h ne by (simp add: hd_insort_key)
      moreover have "\<forall>y \<in> set (a # pre). f x < f y" using False b by auto
      ultimately have "a # es = (a # pre) @ x # post \<and> hd (sort_key f (a # es)) = x \<and>
          (\<forall>y \<in> set (a # pre). f x < f y) \<and> (\<forall>y \<in> set post. f x \<le> f y)"
        using d c by simp
      then show ?thesis by blast
    qed
  qed
qed

subsection \<open>First occurrences\<close>

lemma takeWhile_newSet:
  "set (takeWhile (\<lambda>z. z \<noteq> x) (newSet keys)) = set (takeWhile (\<lambda>z. z \<noteq> x) keys)"
proof (induction keys rule: rev_induct)
  case Nil
  then show ?case by (simp add: newSet_def)
next
  case (snoc k keys)
  have ns: "newSet (keys @ [k]) = setAdd (newSet keys) k" by (simp add: newSet_def)
  show ?case
  proof (cases "x \<in> set keys")
    case True
    then have "x \<in> set (newSet keys)" by (simp add: set_newSet)
    with True snoc show ?thesis
      by (simp add: ns setAdd_def takeWhile_append1)
  next
    case False
    then have nk: "z \<noteq> x" if "z \<in> set keys" for z using that by auto
    have a: "takeWhile (\<lambda>z. z \<noteq> x) (keys @ [k]) = keys @ takeWhile (\<lambda>z. z \<noteq> x) [k]"
      by (rule takeWhile_append2) (rule nk)
    have b: "takeWhile (\<lambda>z. z \<noteq> x) (newSet keys @ [k]) = newSet keys @ takeWhile (\<lambda>z. z \<noteq> x) [k]"
      by (rule takeWhile_append2) (simp add: set_newSet nk)
    have c: "takeWhile (\<lambda>z. z \<noteq> x) (newSet keys) = newSet keys"
      by (simp add: takeWhile_eq_all_conv set_newSet nk)
    show ?thesis
    proof (cases "k \<in> set keys")
      case True
      then have e: "newSet (keys @ [k]) = newSet keys" by (simp add: ns setAdd_def set_newSet)
      have "set (takeWhile (\<lambda>z. z \<noteq> x) [k]) \<subseteq> set keys"
      proof (cases "k = x")
        case True
        then show ?thesis by simp
      next
        case False
        with \<open>k \<in> set keys\<close> show ?thesis by simp
      qed
      then have "set (takeWhile (\<lambda>z. z \<noteq> x) (keys @ [k])) = set keys"
        by (simp only: a set_append) blast
      moreover have "set (takeWhile (\<lambda>z. z \<noteq> x) (newSet (keys @ [k]))) = set keys"
        by (simp only: e c set_newSet)
      ultimately show ?thesis by (rule ssubst)
    next
      case False
      then have e: "newSet (keys @ [k]) = newSet keys @ [k]" by (simp add: ns setAdd_def set_newSet)
      show ?thesis by (simp only: e a b set_append set_newSet)
    qed
  qed
qed

lemma mostFrequent_first:
  assumes "x \<in> set keys"
    and "\<forall>y \<in> set keys. count_list keys y \<le> count_list keys x"
    and "\<forall>y \<in> set (takeWhile (\<lambda>z. z \<noteq> x) keys). count_list keys y < count_list keys x"
  shows "mostFrequent_spec keys = x"
proof -
  let ?P = "\<lambda>x. \<forall>y \<in> set keys. count_list keys y \<le> count_list keys x"
  from assms(1) have ne: "dropWhile (\<lambda>z. z \<noteq> x) keys \<noteq> []"
    by (simp add: dropWhile_eq_Nil_conv)
  from hd_dropWhile [OF ne] have hx: "hd (dropWhile (\<lambda>z. z \<noteq> x) keys) = x" by simp
  define rest where "rest = tl (dropWhile (\<lambda>z. z \<noteq> x) keys)"
  from ne hx have dw: "dropWhile (\<lambda>z. z \<noteq> x) keys = x # rest"
    unfolding rest_def by (metis list.collapse)
  have "\<not> ?P y" if "y \<in> set (takeWhile (\<lambda>z. z \<noteq> x) keys)" for y
  proof -
    from that assms(3) have "count_list keys y < count_list keys x" by blast
    with assms(1) show ?thesis by (meson not_le)
  qed
  then have "filter ?P (takeWhile (\<lambda>z. z \<noteq> x) keys) = []"
    by (simp add: filter_empty_conv)
  moreover have "keys = takeWhile (\<lambda>z. z \<noteq> x) keys @ x # rest"
    using takeWhile_dropWhile_id [of "\<lambda>z. z \<noteq> x" keys] dw by simp
  ultimately have "filter ?P keys = filter ?P (x # rest)"
    using filter_append [of ?P "takeWhile (\<lambda>z. z \<noteq> x) keys" "x # rest"] by simp
  with assms(2) have "filter ?P keys = x # filter ?P rest" by simp
  then show ?thesis by (simp add: mostFrequent_spec_def)
qed


subsection \<open>The first key of the sorted entries\<close>

lemma entries_no_index:
  "\<forall>p \<in> set rec. \<not> isArrayIndex (fst p) \<Longrightarrow> entries rec = rec"
proof -
  assume h: "\<forall>p \<in> set rec. \<not> isArrayIndex (fst p)"
  then have "filter (\<lambda>p. isArrayIndex (fst p)) rec = []" by (simp add: filter_empty_conv)
  moreover from h have "filter (\<lambda>p. \<not> isArrayIndex (fst p)) rec = rec" by (simp add: filter_id_conv)
  ultimately show ?thesis by (simp add: entries_def)
qed

lemma top_of_tally:
  assumes plain: "\<forall>k \<in> set keys. k \<notin> set objectPrototypeKeys \<and> \<not> isArrayIndex k \<and> k \<noteq> []"
  shows "map_option firstKeyOrNA (sortByCountDesc (entries (foldl countUp [] keys)))
         = Some (mostFrequent_spec keys)"
proof -
  let ?rec = "foldl countUp [] keys"
  let ?f = "\<lambda>e. - countOf (snd e)"
  from plain have np: "\<forall>k \<in> set keys. k \<notin> set objectPrototypeKeys" by blast
  note inv = tally_invariant [OF np]
  from inv have keys: "map fst ?rec = newSet keys" by blast
  from inv have vals: "\<And>p. p \<in> set ?rec \<Longrightarrow> snd p = Num (count_list keys (fst p))" by blast
  have dom: "fst ` set ?rec = set keys" by (rule tally_keys [OF np])
  have fval: "?f p = - int (count_list keys (fst p))" if "p \<in> set ?rec" for p
    using vals [OF that] by (simp add: countOf_def)
  have "\<forall>p \<in> set ?rec. \<not> isArrayIndex (fst p)" using dom plain by force
  then have ent: "entries ?rec = ?rec" by (rule entries_no_index)
  have "list_all (\<lambda>e. snd e \<noteq> NonNum) ?rec" using vals by (simp add: list_all_iff)
  then have srt: "sortByCountDesc ?rec = Some (sort_key ?f ?rec)" by (simp add: sortByCountDesc_def)
  show ?thesis
  proof (cases "keys = []")
    case True
    then show ?thesis
      by (simp add: entries_def sortByCountDesc_def firstKeyOrNA_def orElse_def mostFrequent_spec_def)
  next
    case False
    then have "set (newSet keys) \<noteq> {}" by (simp add: set_newSet)
    then have "newSet keys \<noteq> []" by auto
    with keys have ne: "?rec \<noteq> []" by auto
    from sort_key_first_min [OF ne, of ?f] obtain pre x post where
      d: "?rec = pre @ x # post" and h: "hd (sort_key ?f ?rec) = x"
      and b: "\<forall>y \<in> set pre. ?f x < ?f y" and c: "\<forall>y \<in> set post. ?f x \<le> ?f y" by blast
    have xin: "x \<in> set ?rec" by (subst d) simp
    have prein: "set pre \<subseteq> set ?rec" by (subst d) auto
    have postin: "set post \<subseteq> set ?rec" by (subst d) auto
    have kx: "fst x \<in> set keys" using xin dom by force
    have kne: "fst x \<noteq> []" using kx plain by blast
    have sne: "sort_key ?f ?rec \<noteq> []" using ne by (simp add: sort_key_Nil_iff)
    have first: "firstKeyOrNA (sort_key ?f ?rec) = fst x"
      using sne h kne by (cases "sort_key ?f ?rec") (simp_all add: firstKeyOrNA_def orElse_def)
    have le: "?f x \<le> ?f p" if "p \<in> set ?rec" for p
    proof -
      from that d have "p \<in> set pre \<or> p = x \<or> p \<in> set post" by auto
      with b c show ?thesis by force
    qed
    have mx: "\<forall>y \<in> set keys. count_list keys y \<le> count_list keys (fst x)"
    proof
      fix y assume "y \<in> set keys"
      with dom obtain p where p: "p \<in> set ?rec" "fst p = y" by force
      from le [OF p(1)] fval [OF p(1)] fval [OF xin] p(2) show "count_list keys y \<le> count_list keys (fst x)"
        by simp
    qed
    have mrec: "map fst ?rec = map fst pre @ fst x # map fst post"
      by (subst d) simp
    have "distinct (map fst ?rec)" by (simp only: keys distinct_newSet)
    then have dist: "distinct (map fst pre @ fst x # map fst post)" by (simp only: mrec)
    then have nin: "\<And>z. z \<in> set (map fst pre) \<Longrightarrow> z \<noteq> fst x" by force
    have "takeWhile (\<lambda>z. z \<noteq> fst x) (map fst pre @ fst x # map fst post)
          = map fst pre @ takeWhile (\<lambda>z. z \<noteq> fst x) (fst x # map fst post)"
      by (rule takeWhile_append2) (rule nin)
    also have "\<dots> = map fst pre" by simp
    finally have "takeWhile (\<lambda>z. z \<noteq> fst x) (map fst ?rec) = map fst pre"
      by (simp only: mrec)
    then have "takeWhile (\<lambda>z. z \<noteq> fst x) (newSet keys) = map fst pre"
      by (simp only: keys)
    with takeWhile_newSet [of "fst x" keys]
    have tw: "set (takeWhile (\<lambda>z. z \<noteq> fst x) keys) = fst ` set pre" by simp
    have bf: "\<forall>y \<in> set (takeWhile (\<lambda>z. z \<noteq> fst x) keys). count_list keys y < count_list keys (fst x)"
    proof
      fix y assume "y \<in> set (takeWhile (\<lambda>z. z \<noteq> fst x) keys)"
      with tw obtain p where p: "p \<in> set pre" "fst p = y" by force
      from p(1) prein have pr: "p \<in> set ?rec" by blast
      from b p(1) have "?f x < ?f p" by blast
      with fval [OF pr] fval [OF xin] p(2) show "count_list keys y < count_list keys (fst x)"
        by simp
    qed
    from mostFrequent_first [OF kx mx bf] first show ?thesis
      by (simp add: ent srt)
  qed
qed

subsection \<open>Gate keys\<close>

lemma includesStr_hd: "includesStr s t \<Longrightarrow> t \<noteq> [] \<Longrightarrow> hd t \<in> set s"
proof (induction s)
  case Nil
  then show ?case by simp
next
  case (Cons c s)
  then show ?case by (cases t) auto
qed

lemma isDigit_toLowerChar: "isDigit c \<Longrightarrow> toLowerChar c = c"
  by (simp add: isDigit_def toLowerChar_def)

lemma gate_key_plain:
  assumes "includesStr (toLowerCase k) ''gate''"
  shows "k \<notin> set objectPrototypeKeys \<and> \<not> isArrayIndex k \<and> k \<noteq> []"
proof (intro conjI)
  have "list_all (\<lambda>k. \<not> includesStr (toLowerCase k) ''gate'') objectPrototypeKeys"
    by (simp add: objectPrototypeKeys_def toLowerCase_def toLowerChar_def)
  with assms show "k \<notin> set objectPrototypeKeys" by (auto simp: list_all_iff)
  from includesStr_hd [OF assms] have "CHR ''g'' \<in> set (toLowerCase k)" by simp
  then obtain c where c: "c \<in> set k" "toLowerChar c = CHR ''g''" by (auto simp: toLowerCase_def)
  have "\<not> isDigit c"
  proof
    assume "isDigit c"
    then have "toLowerChar c = c" by (rule isDigit_toLowerChar)
    with c(2) \<open>isDigit c\<close> have "isDigit (CHR ''g'')" by simp
    then show False by (simp add: isDigit_def)
  qed
  with c(1) show "\<not> isArrayIndex k" by (auto simp: isArrayIndex_def list_all_iff)
  from c(1) show "k \<noteq> []" by auto
qed

subsection \<open>The two counters of the statistics\<close>

lemma locationCount_tally:
  "locationCount logs = foldl countUp [] (map (\<lambda>d. orElse (location d) ''Unknown'') logs)"
  by (simp add: locationCount_def foldl_map)

lemma foldl_countUp_if:
  "foldl (\<lambda>rec d. if P d then countUp rec (h d) else rec) acc logs
     = foldl countUp acc (map h (filter P logs))"
  by (induction logs arbitrary: acc) simp_all

lemma orElse_gate:
  "includesStr (toLowerCase (orElse x [])) ''gate'' \<Longrightarrow> orElse x ''Unknown gate'' = orElse x []"
  by (cases x) (auto simp: orElse_def toLowerCase_def)

lemma gateCount_tally:
  "gateCount logs =
     foldl countUp [] (filter (\<lambda>l. includesStr (toLowerCase l) ''gate'')
                              (map (\<lambda>d. orElse (location d) []) logs))"
proof -
  let ?P = "\<lambda>d. includesStr (toLowerCase (orElse (location d) [])) ''gate''"
  have "gateCount logs = foldl countUp [] (map (\<lambda>d. orElse (location d) ''Unknown gate'') (filter ?P logs))"
    by (simp add: gateCount_def foldl_countUp_if)
  also have "map (\<lambda>d. orElse (location d) ''Unknown gate'') (filter ?P logs)
             = map (\<lambda>d. orElse (location d) []) (filter ?P logs)"
    by (rule map_cong) (simp_all add: orElse_gate)
  also have "\<dots> = filter (\<lambda>l. includesStr (toLowerCase l) ''gate'') (map (\<lambda>d. orElse (location d) []) logs)"
    by (simp add: filter_map comp_def)
  finally show ?thesis .
qed

lemma orElse_nonempty: "d \<noteq> [] \<Longrightarrow> orElse x d \<noteq> []"
  by (cases x) (simp_all add: orElse_def)

subsection \<open>What the specification's most frequent value is\<close>

lemma mostFrequent_spec_max:
  assumes "keys \<noteq> []"
  shows "mostFrequent_spec keys \<in> set keys \<and>
         (\<forall>y \<in> set keys. count_list keys y \<le> count_list keys (mostFrequent_spec keys)) \<and>
         (\<forall>y \<in> set (takeWhile (\<lambda>z. z \<noteq> mostFrequent_spec keys) keys).
             count_list keys y < count_list keys (mostFrequent_spec keys))"
proof -
  let ?P = "\<lambda>x. \<forall>y \<in> set keys. count_list keys y \<le> count_list keys x"
  let ?C = "count_list keys ` set keys"
  from assms have fin: "finite ?C" and ne: "?C \<noteq> {}" by simp_all
  from Max_in [OF fin ne] obtain m where m: "m \<in> set keys" "count_list keys m = Max ?C" by auto
  have "?P m"
  proof
    fix y assume "y \<in> set keys"
    then have "count_list keys y \<in> ?C" by simp
    from Max_ge [OF fin this] m(2) show "count_list keys y \<le> count_list keys m" by simp
  qed
  with m(1) have "m \<in> set (filter ?P keys)" by simp
  then obtain x rest where f: "filter ?P keys = x # rest" by (cases "filter ?P keys") auto
  then have mf: "mostFrequent_spec keys = x" by (simp add: mostFrequent_spec_def)
  from f [symmetric] obtain pre post where d: "keys = pre @ x # post"
    and np: "\<forall>z \<in> set pre. \<not> ?P z" and px: "?P x"
    by (auto dest!: Cons_eq_filterD)
  have xin: "x \<in> set keys" by (subst d) simp
  have nx: "\<And>z. z \<in> set pre \<Longrightarrow> z \<noteq> x" using np px by blast
  have "takeWhile (\<lambda>z. z \<noteq> x) (pre @ x # post) = pre @ takeWhile (\<lambda>z. z \<noteq> x) (x # post)"
    by (rule takeWhile_append2) (rule nx)
  then have tw: "takeWhile (\<lambda>z. z \<noteq> x) keys = pre" using d by simp
  have "count_list keys y < count_list keys x" if "y \<in> set pre" for y
  proof -
    from np that obtain z where z: "z \<in> set keys" "\<not> count_list keys z \<le> count_list keys y" by blast
    from px z(1) have "count_list keys z \<le> count_list keys x" by blast
    with z(2) show ?thesis by simp
  qed
  with xin px show ?thesis unfolding mf tw by blast
qed

subsection \<open>The two text fields\<close>

text \<open>
  Where no location of the day (an unset one counting as \<open>Unknown\<close>) is an array index
  or the name of an inherited property, the counter object keeps the locations in the
  order in which the logs meet them, and \<open>frequentBuilding\<close> is the value that the rule
  of the specification gives. A location that contains \<open>gate\<close> is never such a name,
  so \<open>highestGate\<close> is the value of the rule for every list of logs.
\<close>

lemma stats_plain_locations:
  assumes "logs \<noteq> []"
  shows "\<exists>st. stats logs A today = Some st \<and>
           ((\<forall>l \<in> set (map (\<lambda>d. orElse (location d) ''Unknown'') (todayLogs logs today)).
                \<not> isArrayIndex l \<and> l \<notin> set objectPrototypeKeys)
            \<longrightarrow> frequentBuilding st =
                  Some (mostFrequent_spec
                          (map (\<lambda>d. orElse (location d) ''Unknown'') (todayLogs logs today)))) \<and>
           highestGate st =
             Some (mostFrequent_spec
                     (filter (\<lambda>l. sublist ''gate'' (toLowerCase l))
                             (map (\<lambda>d. orElse (location d) []) (todayLogs logs today))))"
proof -
  let ?locs = "map (\<lambda>d. orElse (location d) ''Unknown'') (todayLogs logs today)"
  let ?gates = "filter (\<lambda>l. includesStr (toLowerCase l) ''gate'')
                       (map (\<lambda>d. orElse (location d) []) (todayLogs logs today))"
  have fb: "map_option firstKeyOrNA (sortByCountDesc (entries (locationCount (todayLogs logs today))))
            = Some (mostFrequent_spec ?locs)"
    if "\<forall>l \<in> set ?locs. \<not> isArrayIndex l \<and> l \<notin> set objectPrototypeKeys"
  proof -
    have "\<forall>l \<in> set ?locs. l \<noteq> []" by (auto simp: orElse_nonempty)
    with that have "\<forall>k \<in> set ?locs. k \<notin> set objectPrototypeKeys \<and> \<not> isArrayIndex k \<and> k \<noteq> []"
      by blast
    from top_of_tally [OF this] show ?thesis by (simp only: locationCount_tally)
  qed
  have "\<forall>k \<in> set ?gates. k \<notin> set objectPrototypeKeys \<and> \<not> isArrayIndex k \<and> k \<noteq> []"
    using gate_key_plain by simp
  from top_of_tally [OF this]
  have hg: "map_option firstKeyOrNA (sortByCountDesc (entries (gateCount (todayLogs logs today))))
            = Some (mostFrequent_spec ?gates)"
    by (simp only: gateCount_tally)
  from assms fb hg show ?thesis
    by (simp add: stats_def includesStr_iff_sublist)
qed


lemma stats_plain_locations_tie:
  "\<exists>st. stats tiedLogs [] ''2024-01-01'' = Some st \<and>
        frequentBuilding st = Some ''Lobby'' \<and> highestGate st = Some ''Gate 1''"
proof -
  have h: "tiedLogs \<noteq> []" by (simp add: tiedLogs_def)
  have l: "map (\<lambda>d. orElse (location d) ''Unknown'') (todayLogs tiedLogs ''2024-01-01'')
           = [''Lobby'', ''Gate 1'', ''Gate 1'', ''Lobby'']"
    by (simp add: todayLogs_def tiedLogs_def mkLog_def orElse_def)
  have g: "filter (\<lambda>l. sublist ''gate'' (toLowerCase l))
             (map (\<lambda>d. orElse (location d) []) (todayLogs tiedLogs ''2024-01-01''))
           = [''Gate 1'', ''Gate 1'']"
    unfolding includesStr_iff_sublist [symmetric]
    by (simp add: todayLogs_def tiedLogs_def mkLog_def orElse_def toLowerCase_def toLowerChar_def)
  have p: "\<forall>l \<in> set [''Lobby'', ''Gate 1'', ''Gate 1'', ''Lobby''].
             \<not> isArrayIndex l \<and> l \<notin> set objectPrototypeKeys"
    by (simp add: isArrayIndex_def isDigit_def objectPrototypeKeys_def)
  have m: "mostFrequent_spec [''Lobby'', ''Gate 1'', ''Gate 1'', ''Lobby''] = ''Lobby''"
    by (simp add: mostFrequent_spec_def)
  have n: "mostFrequent_spec [''Gate 1'', ''Gate 1''] = ''Gate 1''"
    by (simp add: mostFrequent_spec_def)
  from stats_plain_locations [OF h, of "[]" "''2024-01-01''"] show ?thesis
    unfolding l g using p m n by auto
qed

subsection \<open>Locations that the counter object does not keep in the order of the logs\<close>

lemma mostFrequent_spec_samples:
  "mostFrequent_spec [''Lobby'', ''7''] = ''Lobby'' \<and>
   mostFrequent_spec [''constructor'', ''Lobby'', ''Lobby''] = ''Lobby''"
  by (simp add: mostFrequent_spec_def)

text \<open>
  Claim C3. The claim asks that \<open>frequentBuilding\<close> be the location with the most logs
  of the day, the location met first in the logs winning a tie. With one log at
  \<open>Lobby\<close> and then one at \<open>7\<close> the two locations tie and \<open>Lobby\<close> is met first, but
  the entries of the counter object start with the array index \<open>7\<close>, and
  \<open>frequentBuilding\<close> is \<open>7\<close>. With one log at \<open>constructor\<close> and then two at
  \<open>Lobby\<close>, the value stored under \<open>constructor\<close> is not a number, every comparison
  with it is \<open>NaN\<close>, the sort leaves the entries as they are, and \<open>frequentBuilding\<close>
  is \<open>constructor\<close> although \<open>Lobby\<close> has more logs.
\<close>

theorem frequentBuilding_not_first_encountered:
  "map (\<lambda>d. orElse (location d) ''Unknown'') (todayLogs numberedLogs ''2024-01-01'')
     = [''Lobby'', ''7''] \<and>
   entries (locationCount (todayLogs numberedLogs ''2024-01-01''))
     = [(''7'', Num 1), (''Lobby'', Num 1)] \<and>
   map_option frequentBuilding (stats numberedLogs [] ''2024-01-01'') = Some (Some ''7'') \<and>
   map (\<lambda>d. orElse (location d) ''Unknown'') (todayLogs inheritedLogs ''2024-01-01'')
     = [''constructor'', ''Lobby'', ''Lobby''] \<and>
   entries (locationCount (todayLogs inheritedLogs ''2024-01-01''))
     = [(''constructor'', NonNum), (''Lobby'', Num 2)] \<and>
   map_option frequentBuilding (stats inheritedLogs [] ''2024-01-01'') = Some (Some ''constructor'')"
  by (simp add: numberedLogs_def inheritedLogs_def mkLog_def stats_def todayLogs_def
      locationCount_def countUp_def objectPrototypeKeys_def entries_def isArrayIndex_def
      isDigit_def numericValue_def sortByCountDesc_def countOf_def firstKeyOrNA_def orElse_def)

section \<open>Listing the stations of a category\<close>

text \<open>
  Claim C8. For every list of stations the listing keeps the input order and contains
  exactly the stations that match the selected category, which a station does when the
  classifier of the specification puts it in that category or when it is a legacy station
  (its name is missing or empty and its type is neither \<open>gate\<close> nor \<open>building\<close>),
  and that, unless inactive stations are shown, are not marked inactive (a station
  without the flag counts as active).
\<close>

theorem filteredStations_listFor:
  "subseq (filteredStations st) (stations st) \<and>
   filteredStations st =
     filter (\<lambda>s.
        (classify_spec s = currentType st \<or>
         (orElse (name s) [] = [] \<and>
          toLowerCase (orElse (stationType s) []) \<noteq> ''gate'' \<and>
          toLowerCase (orElse (stationType s) []) \<noteq> ''building''))
      \<and> (showInactive st \<or> active s \<noteq> Some False)) (stations st)"
proof
  show "subseq (filteredStations st) (stations st)"
    by (simp add: filteredStations_def)
next
  have "stationShown ct inact s \<longleftrightarrow>
        (classify_spec s = ct \<or>
         (orElse (name s) [] = [] \<and>
          toLowerCase (orElse (stationType s) []) \<noteq> ''gate'' \<and>
          toLowerCase (orElse (stationType s) []) \<noteq> ''building''))
      \<and> (inact \<or> active s \<noteq> Some False)" for ct inact s
    by (cases ct)
       (auto simp: stationShown_def classify_spec_def Let_def kindString_def toLowerCase_Nil_iff)
  then show "filteredStations st =
     filter (\<lambda>s.
        (classify_spec s = currentType st \<or>
         (orElse (name s) [] = [] \<and>
          toLowerCase (orElse (stationType s) []) \<noteq> ''gate'' \<and>
          toLowerCase (orElse (stationType s) []) \<noteq> ''building''))
      \<and> (showInactive st \<or> active s \<noteq> Some False)) (stations st)"
    unfolding filteredStations_def by (intro filter_cong refl)
qed

theorem filteredStations_listFor_witness:
  "filteredStations sampleState =
     [mkStation 1 ''Gate 1'' (Some ''gate''),
      \<lparr> station_id = 3, name = None, stationType = None, active = None \<rparr>,
      mkStation 5 ''West Gate'' None] \<and>
   filteredStations (sampleState\<lparr>currentType := Building\<rparr>) =
     [mkStation 2 ''Library'' None,
      \<lparr> station_id = 3, name = None, stationType = None, active = None \<rparr>]"
  using filteredStations_listFor [of sampleState]
        filteredStations_listFor [of "sampleState\<lparr>currentType := Building\<rparr>"]
  by (simp add: sampleState_def sampleStations_def initialState_def mkStation_def
      filteredStations_def stationShown_def Let_def kindString_def
      toLowerCase_def toLowerChar_def orElse_def)

section \<open>Creating a station\<close>

text \<open>
  Claim C2, amended. For every list of existing stations and every typed name,
  creating a station fails with the empty-name message when the trimmed name is empty;
  fails with the duplicate-name message when the trimmed name, in lower case, equals the
  name of an existing station in lower case, the stored name being taken as it is
  (it is not trimmed); and otherwise sends the trimmed name, with \<open>Gate\<close> and a space in
  front exactly when the category is gate and the name does not contain \<open>gate\<close> in any
  letter case. On a validation failure no call is issued and the list of stations is
  unchanged.
\<close>

theorem create_validation:
  "(trim (createName st) = [] \<longrightarrow>
      handleCreateStation resp st = ([], st\<lparr>createError := Some emptyNameMessage\<rparr>)) \<and>
   (trim (createName st) \<noteq> [] \<and>
    (\<exists>s \<in> set (stations st).
        toLowerCase (orElse (name s) []) = toLowerCase (trim (createName st))) \<longrightarrow>
      handleCreateStation resp st = ([], st\<lparr>createError := Some duplicateNameMessage\<rparr>)) \<and>
   (trim (createName st) \<noteq> [] \<and>
    \<not> (\<exists>s \<in> set (stations st).
        toLowerCase (orElse (name s) []) = toLowerCase (trim (createName st))) \<longrightarrow>
      fst (handleCreateStation resp st) =
        [CreateStationCall
           (if createType st = Gate \<and> \<not> sublist ''gate'' (toLowerCase (trim (createName st)))
            then ''Gate '' @ trim (createName st) else trim (createName st))
           (createType st) True]) \<and>
   (fst (handleCreateStation resp st) = [] \<longrightarrow>
      stations (snd (handleCreateStation resp st)) = stations st)"
  by (cases resp)
     (auto simp: handleCreateStation_def Let_def list_ex_iff finalNameOf_def includesStr_iff_sublist)

theorem create_validation_witness:
  "handleCreateStation (Rejected None) (sampleState\<lparr>createName := '' gate 1 ''\<rparr>)
     = ([], sampleState\<lparr>createName := '' gate 1 '', createError := Some duplicateNameMessage\<rparr>) \<and>
   handleCreateStation (Rejected None) (sampleState\<lparr>createName := ''   ''\<rparr>)
     = ([], sampleState\<lparr>createName := ''   '', createError := Some emptyNameMessage\<rparr>) \<and>
   fst (handleCreateStation (Rejected None) (sampleState\<lparr>createName := '' 3''\<rparr>))
     = [CreateStationCall ''Gate 3'' Gate True]"
  using create_validation [of "sampleState\<lparr>createName := '' gate 1 ''\<rparr>" "Rejected None"]
        create_validation [of "sampleState\<lparr>createName := ''   ''\<rparr>" "Rejected None"]
        create_validation [of "sampleState\<lparr>createName := '' 3''\<rparr>" "Rejected None"]
  by (simp add: sampleState_def sampleStations_def initialState_def mkStation_def
      handleCreateStation_def Let_def finalNameOf_def trim_def isWhiteSpace_def
      toLowerCase_def toLowerChar_def orElse_def)

theorem create_duplicate_counterexample:
  "toLowerCase (trim (orElse (name (mkStation 1 '' Lobby'' (Some ''building''))) []))
     = toLowerCase (trim (createName paddedState)) \<and>
   stations paddedState = [mkStation 1 '' Lobby'' (Some ''building'')] \<and>
   handleCreateStation (Resolved (mkStation 2 ''Lobby'' (Some ''building''))) paddedState
     = ([CreateStationCall ''Lobby'' Building True],
        paddedState\<lparr>stations := [mkStation 1 '' Lobby'' (Some ''building''),
                                  mkStation 2 ''Lobby'' (Some ''building'')]\<rparr>)"
  by (simp add: paddedState_def initialState_def mkStation_def
      handleCreateStation_def Let_def finalNameOf_def trim_def isWhiteSpace_def
      toLowerCase_def toLowerChar_def orElse_def nullish_def)

section \<open>Renaming a station\<close>

text \<open>
  Claim C7. For every selected station and every new name, renaming fails with the
  empty-name message when the trimmed name is empty, and otherwise sends the update with
  the trimmed name, \<open>Gate\<close> and a space in front exactly when the new category is gate
  and the name does not contain \<open>gate\<close> in any letter case. The names of the other
  stations are not consulted: the result is the same whatever they are, also when one of
  them equals the new name up to letter case.
\<close>

theorem rename_validation:
  assumes "selectedStation st = Some sel"
  shows "(trim (renameName st) = [] \<longrightarrow>
            handleRenameStation resp st = ([], st\<lparr>renameError := Some emptyNameMessage\<rparr>)) \<and>
         (trim (renameName st) \<noteq> [] \<longrightarrow>
            fst (handleRenameStation resp st) =
              [UpdateStationCall (station_id sel)
                 (if renameType st = Gate \<and> \<not> sublist ''gate'' (toLowerCase (trim (renameName st)))
                  then ''Gate '' @ trim (renameName st) else trim (renameName st))
                 (active sel) (renameType st)] \<and>
            renameError (snd (handleRenameStation (Resolved upd) st)) = renameError st \<and>
            \<not> renameModalOpen (snd (handleRenameStation (Resolved upd) st)))"
  using assms
  by (cases resp)
     (auto simp: handleRenameStation_def Let_def finalNameOf_def includesStr_iff_sublist)

theorem rename_validation_witness:
  "selectedStation renameState = Some (mkStation 5 ''West Gate'' None) \<and>
   list_ex (\<lambda>s. station_id s \<noteq> 5 \<and>
                 toLowerCase (trim (orElse (name s) [])) = toLowerCase (trim (renameName renameState)))
           (stations renameState) \<and>
   fst (handleRenameStation (Rejected None) renameState)
     = [UpdateStationCall 5 ''gate 1'' (Some True) Gate]"
proof -
  have h: "selectedStation renameState = Some (mkStation 5 ''West Gate'' None)"
    by (simp add: renameState_def sampleState_def sampleStations_def initialState_def
        mkStation_def selectedStation_def)
  have t: "trim (renameName renameState) = ''gate 1''"
    by (simp add: renameState_def trim_def isWhiteSpace_def)
  have c: "list_ex (\<lambda>s. station_id s \<noteq> 5 \<and>
                 toLowerCase (trim (orElse (name s) [])) = toLowerCase (trim (renameName renameState)))
           (stations renameState)"
    unfolding t
    by (simp add: renameState_def sampleState_def sampleStations_def initialState_def
        mkStation_def trim_def isWhiteSpace_def toLowerCase_def toLowerChar_def orElse_def)
  have g: "sublist ''gate'' (toLowerCase ''gate 1'')"
    unfolding includesStr_iff_sublist [symmetric]
    by (simp add: toLowerCase_def toLowerChar_def)
  from rename_validation [OF h, of "Rejected None"] t g
  have "fst (handleRenameStation (Rejected None) renameState)
     = [UpdateStationCall 5 ''gate 1'' (Some True) (renameType renameState)]"
    by (simp add: mkStation_def)
  then show ?thesis using h c by (simp add: renameState_def)
qed

section \<open>The places that choose an icon\<close>

text \<open>
  Claim C1. The claim asks that every place that needs a category applies the classifier
  of the specification, and in particular that a log row whose location matches a station
  without a usable type and with \<open>gate\<close> in its name gets the gate icon. The station
  \<open>West Gate\<close> without a type is a gate for the classifier and gets the gate icon in the
  station list, but a log row at \<open>West Gate\<close> gets the building icon. A station
  \<open>Gate 7\<close> with the unknown type \<open>kiosk\<close> is a gate for the classifier and is listed
  under the gates, but gets the building icon in the station list.
\<close>

theorem icon_sites_disagree:
  "iconOf (classify_spec (mkStation 5 ''West Gate'' None)) = faDungeon \<and>
   stationIcon (mkStation 5 ''West Gate'' None) = faDungeon \<and>
   locationIcon [mkStation 5 ''West Gate'' None] (mkLog 1 ''2024-01-01'' ''West Gate'' ''A'')
     = Some farBuilding \<and>
   iconOf (classify_spec (mkStation 6 ''Gate 7'' (Some ''kiosk''))) = faDungeon \<and>
   stationShown Gate False (mkStation 6 ''Gate 7'' (Some ''kiosk'')) \<and>
   stationIcon (mkStation 6 ''Gate 7'' (Some ''kiosk'')) = farBuilding"
  by (simp add: classify_spec_def stationIcon_def locationIcon_def stationShown_def mkStation_def
      mkLog_def Let_def trim_def isWhiteSpace_def toLowerCase_def toLowerChar_def orElse_def
      kindString_def iconOf_def)

section \<open>Location options\<close>

lemma tokenize_digits:
  "d \<noteq> [] \<Longrightarrow> list_all isDigit d \<Longrightarrow> tokenize d = [(0, numericValue d, d)]"
proof (induction d)
  case Nil
  then show ?case by simp
next
  case (Cons c cs)
  show ?case
  proof (cases "cs = []")
    case True
    with Cons.prems show ?thesis by simp
  next
    case False
    with Cons have "tokenize cs = [(0, numericValue cs, cs)]" by simp
    with Cons.prems show ?thesis by simp
  qed
qed

lemma tokenize_text_digits:
  assumes "p \<noteq> []" "list_all (\<lambda>c. \<not> isDigit c) p" "d \<noteq> []" "list_all isDigit d"
  shows "tokenize (p @ d) = [(1, 0, p), (0, numericValue d, d)]"
  using assms(1,2)
proof (induction p)
  case Nil
  then show ?case by simp
next
  case (Cons c cs)
  show ?case
  proof (cases "cs = []")
    case True
    with Cons.prems tokenize_digits [OF assms(3,4)] show ?thesis by simp
  next
    case False
    with Cons have "tokenize (cs @ d) = [(1, 0, cs), (0, numericValue d, d)]" by simp
    with Cons.prems show ?thesis by simp
  qed
qed

lemma gateAwareKey_numeric:
  assumes "sublist ''gate'' (toLowerCase p)" "list_all (\<lambda>c. \<not> isDigit c) p"
    and "d1 \<noteq> []" "list_all isDigit d1" "d2 \<noteq> []" "list_all isDigit d2"
    and "numericValue d1 < numericValue d2"
  shows "gateAwareKey (p @ d1) < gateAwareKey (p @ d2)"
proof -
  from assms(1) have ne: "p \<noteq> []" by (auto simp: toLowerCase_def)
  have g: "includesStr (toLowerCase (p @ d)) ''gate''" for d
    using assms(1) by (simp add: includesStr_iff_sublist toLowerCase_def sublist_append)
  have "gateAwareKey (p @ d1) = [(1, 0, p), (0, numericValue d1, d1)]"
    using g tokenize_text_digits [OF ne assms(2) assms(3,4)] by (simp add: gateAwareKey_def)
  moreover have "gateAwareKey (p @ d2) = [(1, 0, p), (0, numericValue d2, d2)]"
    using g tokenize_text_digits [OF ne assms(2) assms(5,6)] by (simp add: gateAwareKey_def)
  ultimately show ?thesis using assms(7) by simp
qed

lemma locationOptions_set:
  "set (locationOptions sts) =
     {n. \<exists>s \<in> set sts. n = trim (orElse (name s) []) \<and> n \<noteq> [] \<and> n \<noteq> ''N/A''}"
  by (auto simp: locationOptions_def sortGateAware_def set_newSet)

lemma locationOptions_distinct: "distinct (locationOptions sts)"
  by (simp add: locationOptions_def sortGateAware_def distinct_newSet)

lemma locationOptions_sorted: "sorted (map gateAwareKey (locationOptions sts))"
  by (simp add: locationOptions_def sortGateAware_def)

lemma locationOptions_example:
  "locationOptions [mkStation 1 ''Gate 10'' None, mkStation 2 ''Gate 2'' None,
                    mkStation 3 '' Gate 2 '' None, mkStation 4 ''N/A'' None]
     = [''Gate 2'', ''Gate 10'']"
  by (simp add: locationOptions_def sortGateAware_def newSet_def setAdd_def mkStation_def
      gateAwareKey_def trim_def isWhiteSpace_def isDigit_def numericValue_def
      toLowerCase_def toLowerChar_def orElse_def)


text \<open>
  Claim C9. For every list of stations, the location options are exactly the trimmed
  station names that are not blank and not the placeholder \<open>N/A\<close>, each of them once,
  in the order of the gate-aware comparator: the list is sorted by the gate-aware key,
  and for two gate names that differ only in a final number the one with the smaller
  number has the smaller key, so that \<open>Gate 2\<close> comes before \<open>Gate 10\<close> whatever the
  order of the stations.
\<close>

theorem locationOptions_gate_aware:
  "set (locationOptions sts) =
     {n. \<exists>s \<in> set sts. n = trim (orElse (name s) []) \<and> n \<noteq> [] \<and> n \<noteq> ''N/A''} \<and>
   distinct (locationOptions sts) \<and>
   sorted (map gateAwareKey (locationOptions sts)) \<and>
   (\<forall>p d1 d2.
      sublist ''gate'' (toLowerCase p) \<and> list_all (\<lambda>c. \<not> isDigit c) p \<and>
      d1 \<noteq> [] \<and> list_all isDigit d1 \<and> d2 \<noteq> [] \<and> list_all isDigit d2 \<and>
      numericValue d1 < numericValue d2
      \<longrightarrow> gateAwareKey (p @ d1) < gateAwareKey (p @ d2)) \<and>
   locationOptions [mkStation 1 ''Gate 2'' None, mkStation 2 ''Gate 10'' None]
     = [''Gate 2'', ''Gate 10''] \<and>
   locationOptions [mkStation 1 ''Gate 10'' None, mkStation 2 ''Gate 2'' None,
                    mkStation 3 '' Gate 2 '' None, mkStation 4 ''N/A'' None]
     = [''Gate 2'', ''Gate 10'']"
proof (intro conjI allI impI)
  show "set (locationOptions sts) =
     {n. \<exists>s \<in> set sts. n = trim (orElse (name s) []) \<and> n \<noteq> [] \<and> n \<noteq> ''N/A''}"
    by (rule locationOptions_set)
  show "distinct (locationOptions sts)" by (rule locationOptions_distinct)
  show "sorted (map gateAwareKey (locationOptions sts))" by (rule locationOptions_sorted)
  show "locationOptions [mkStation 1 ''Gate 10'' None, mkStation 2 ''Gate 2'' None,
                    mkStation 3 '' Gate 2 '' None, mkStation 4 ''N/A'' None]
     = [''Gate 2'', ''Gate 10'']"
    by (rule locationOptions_example)
  show "locationOptions [mkStation 1 ''Gate 2'' None, mkStation 2 ''Gate 10'' None]
     = [''Gate 2'', ''Gate 10'']"
    by (simp add: locationOptions_def sortGateAware_def newSet_def setAdd_def mkStation_def
      gateAwareKey_def trim_def isWhiteSpace_def isDigit_def numericValue_def
      toLowerCase_def toLowerChar_def orElse_def)
next
  fix p d1 d2
  assume "sublist ''gate'' (toLowerCase p) \<and> list_all (\<lambda>c. \<not> isDigit c) p \<and>
      d1 \<noteq> [] \<and> list_all isDigit d1 \<and> d2 \<noteq> [] \<and> list_all isDigit d2 \<and>
      numericValue d1 < numericValue d2"
  then show "gateAwareKey (p @ d1) < gateAwareKey (p @ d2)"
    by (intro gateAwareKey_numeric) simp_all
qed

theorem locationOptions_gate_aware_witness:
  "set (locationOptions sampleStations) = {''Gate 1'', ''Library'', ''Gate 9'', ''West Gate''} \<and>
   gateAwareKey (''Gate '' @ ''9'') < gateAwareKey (''Gate '' @ ''10'')"
proof -
  have s: "{n. \<exists>s \<in> set sampleStations. n = trim (orElse (name s) []) \<and> n \<noteq> [] \<and> n \<noteq> ''N/A''}
           = {''Gate 1'', ''Library'', ''Gate 9'', ''West Gate''}"
    by (auto simp: sampleStations_def mkStation_def trim_def isWhiteSpace_def orElse_def)
  have g: "sublist ''gate'' (toLowerCase ''Gate '')"
    unfolding includesStr_iff_sublist [symmetric]
    by (simp add: toLowerCase_def toLowerChar_def)
  have d: "list_all (\<lambda>c. \<not> isDigit c) ''Gate '' \<and> ''9'' \<noteq> [] \<and> list_all isDigit ''9'' \<and>
           ''10'' \<noteq> [] \<and> list_all isDigit ''10'' \<and> numericValue ''9'' < numericValue ''10''"
    by (simp add: isDigit_def numericValue_def)
  note t = locationOptions_gate_aware [of sampleStations]
  have a: "set (locationOptions sampleStations) = {''Gate 1'', ''Library'', ''Gate 9'', ''West Gate''}"
    using t [THEN conjunct1] s by (rule trans)
  have b: "gateAwareKey (''Gate '' @ ''9'') < gateAwareKey (''Gate '' @ ''10'')"
    using t [THEN conjunct2, THEN conjunct2, THEN conjunct2, THEN conjunct1, rule_format,
             of "''Gate ''" "''9''" "''10''"] g d
    by (simp only: simp_thms)
  from a b show ?thesis by (rule conjI)
qed

section \<open>Guard assignment\<close>

lemma toggle_distinct:
  "distinct (selectedGuardIds st) \<Longrightarrow> distinct (selectedGuardIds (handleToggleGuardSelection g st))"
  by (simp add: handleToggleGuardSelection_def)

lemma save_keeps_selection:
  "selectedGuardIds (snd (handleSaveAssignments u r st)) = selectedGuardIds st"
  by (simp add: handleSaveAssignments_def split: option.splits response.splits)

lemma step_distinct:
  "distinct (selectedGuardIds st) \<Longrightarrow> fetchedSet a \<Longrightarrow> distinct (selectedGuardIds (step st a))"
proof (cases a)
  case (SelectStation sel resp)
  assume "distinct (selectedGuardIds st)" "fetchedSet a"
  with SelectStation show ?thesis
    by (cases resp; cases sel) (simp_all add: fetchGuardsForStation_def)
next
  case (ToggleGuard g)
  assume "distinct (selectedGuardIds st)"
  with ToggleGuard show ?thesis by (simp add: toggle_distinct)
next
  case (SaveAssignments u r)
  assume "distinct (selectedGuardIds st)"
  with SaveAssignments show ?thesis by (simp add: save_keeps_selection)
qed

lemma run_distinct:
  "distinct (selectedGuardIds st) \<Longrightarrow> list_all fetchedSet acts \<Longrightarrow>
   distinct (selectedGuardIds (run st acts))"
  unfolding run_def
  by (induction acts arbitrary: st) (simp_all add: step_distinct)

text \<open>
  Claim C10. Starting from the fetched assignment set, the guard selection held by the
  component never contains an id twice: a toggle of an id that is present removes every
  occurrence of it, a toggle of an absent id appends it, and the other ids are untouched.
  Saving sends one update call that carries the whole current selection for the selected
  station, followed at most by a reload of that station's guards, and leaves the
  selection as it is.
\<close>

theorem guard_selection_duplicate_free:
  assumes "list_all fetchedSet acts"
  shows "distinct (selectedGuardIds (run initialState acts)) \<and>
         (\<forall>st g. (g \<in> set (selectedGuardIds st) \<longrightarrow>
                     g \<notin> set (selectedGuardIds (handleToggleGuardSelection g st))) \<and>
                  (g \<notin> set (selectedGuardIds st) \<longrightarrow>
                     selectedGuardIds (handleToggleGuardSelection g st) = selectedGuardIds st @ [g]) \<and>
                  filter (\<lambda>i. i \<noteq> g) (selectedGuardIds (handleToggleGuardSelection g st))
                    = filter (\<lambda>i. i \<noteq> g) (selectedGuardIds st)) \<and>
         (\<forall>st u r i. selectedStationId st = Some i \<and> i \<noteq> 0 \<longrightarrow>
                  hd (fst (handleSaveAssignments u r st)) = UpdateStationGuardsCall i (selectedGuardIds st) \<and>
                  (\<forall>c \<in> set (fst (handleSaveAssignments u r st)).
                      c = UpdateStationGuardsCall i (selectedGuardIds st) \<or> c = GetStationGuardsCall i) \<and>
                  selectedGuardIds (snd (handleSaveAssignments u r st)) = selectedGuardIds st)"
proof (intro conjI allI impI ballI)
  show "distinct (selectedGuardIds (run initialState acts))"
    using assms by (intro run_distinct) (simp_all add: initialState_def)
next
  fix st :: StationsState and g :: int assume "g \<in> set (selectedGuardIds st)"
  then show "g \<notin> set (selectedGuardIds (handleToggleGuardSelection g st))"
    by (simp add: handleToggleGuardSelection_def)
next
  fix st :: StationsState and g :: int assume "g \<notin> set (selectedGuardIds st)"
  then show "selectedGuardIds (handleToggleGuardSelection g st) = selectedGuardIds st @ [g]"
    by (simp add: handleToggleGuardSelection_def)
next
  fix st :: StationsState and g
  show "filter (\<lambda>i. i \<noteq> g) (selectedGuardIds (handleToggleGuardSelection g st))
          = filter (\<lambda>i. i \<noteq> g) (selectedGuardIds st)"
    by (simp add: handleToggleGuardSelection_def)
next
  fix st :: StationsState and u r i assume h: "selectedStationId st = Some i \<and> i \<noteq> 0"
  then show "hd (fst (handleSaveAssignments u r st)) = UpdateStationGuardsCall i (selectedGuardIds st)"
    by (cases u; cases r) (simp_all add: handleSaveAssignments_def)
next
  fix st :: StationsState and u r i c assume h: "selectedStationId st = Some i \<and> i \<noteq> 0"
    and c: "c \<in> set (fst (handleSaveAssignments u r st))"
  then show "c = UpdateStationGuardsCall i (selectedGuardIds st) \<or> c = GetStationGuardsCall i"
    by (cases u; cases r) (auto simp: handleSaveAssignments_def)
next
  fix st :: StationsState and u r and i :: int
  show "selectedGuardIds (snd (handleSaveAssignments u r st)) = selectedGuardIds st"
    by (rule save_keeps_selection)
qed

theorem guard_selection_duplicate_free_witness:
  "list_all fetchedSet sampleActions \<and>
   selectedGuardIds (run initialState sampleActions) = [1, 7] \<and>
   distinct (selectedGuardIds (run initialState sampleActions)) \<and>
   fst (handleSaveAssignments (Resolved ()) (Resolved guardsOf3) (run initialState sampleActions))
     = [UpdateStationGuardsCall 3 [1, 7], GetStationGuardsCall 3]"
proof -
  have h: "list_all fetchedSet sampleActions"
    by (simp add: sampleActions_def guardsOf3_def)
  have v: "run initialState sampleActions =
     initialState\<lparr>selectedStationId := Some 3, assignedUsers := guardsOf3, selectedGuardIds := [1, 7]\<rparr>"
    by (simp add: sampleActions_def guardsOf3_def run_def initialState_def
        fetchGuardsForStation_def handleToggleGuardSelection_def)
  from guard_selection_duplicate_free [OF h] have "distinct (selectedGuardIds (run initialState sampleActions))"
    by blast
  with h v show ?thesis
    by (simp add: handleSaveAssignments_def initialState_def)
qed

end
